theory Spec2Isabelle
  imports Main "HOL-Library.Word"
begin

unbundle bit_operations_syntax

section \<open>Type identifiers (PiiVariant.h, PiiYdinTypes.h)\<close>

text \<open>
  Type IDs are \<open>unsigned int\<close> in \<open>PiiVariant\<close> and \<open>int\<close> in the \<open>PiiYdin\<close>
  predicates; both are 32 bits wide. The bit pattern is a \<open>32 word\<close>; \<open>\<le>\<close> on words is
  the unsigned comparison the C++ performs on \<open>unsigned int\<close>.
\<close>

type_synonym uint = "32 word"

text \<open>\<open>enum PrimitiveType\<close>, PiiVariant.h lines 251-272.\<close>

definition CharType :: uint where "CharType = 0x00"

definition ShortType :: uint where "ShortType = 0x01"

definition IntType :: uint where "IntType = 0x02"

definition Int64Type :: uint where "Int64Type = 0x03"

definition UnsignedCharType :: uint where "UnsignedCharType = 0x08"

definition UnsignedShortType :: uint where "UnsignedShortType = 0x09"

definition UnsignedIntType :: uint where "UnsignedIntType = 0x0A"

definition UnsignedInt64Type :: uint where "UnsignedInt64Type = 0x0B"

definition FloatType :: uint where "FloatType = 0x10"

definition DoubleType :: uint where "DoubleType = 0x11"

definition BoolType :: uint where "BoolType = 0x18"

definition VoidPtrType :: uint where "VoidPtrType = 0x19"

definition LastPrimitiveType :: uint where "LastPrimitiveType = VoidPtrType"

definition InvalidType :: uint where "InvalidType = 0xffffffff"

text \<open>
  \<open>static bool isPrimitive(unsigned int type) { return type <= LastPrimitiveType; }\<close>
\<close>

definition isPrimitive :: "uint \<Rightarrow> bool" where
  "isPrimitive type = (type \<le> LastPrimitiveType)"

text \<open>
  \<open>inline bool isControlType(int type) { return (type & ~0x1f) == 0x20; }\<close> and
  \<open>inline bool isMatrixType(int type) { return (type & ~0x1f) == 0x40; }\<close>
\<close>

definition isControlType :: "uint \<Rightarrow> bool" where
  "isControlType type = (type AND NOT 0x1f = 0x20)"

definition isNonControlType :: "uint \<Rightarrow> bool" where
  "isNonControlType type = (type AND NOT 0x1f \<noteq> 0x20)"

definition isMatrixType :: "uint \<Rightarrow> bool" where
  "isMatrixType type = (type AND NOT 0x1f = 0x40)"

section \<open>The variant's storage (PiiVariant.h, lines 517-542)\<close>

text \<open>
  \<open>union Value\<close> overlays twelve members on the same bytes; its size is that of its
  largest members (\<open>qint64\<close>, \<open>quint64\<close>, \<open>double\<close>, and \<open>void*\<close> on a 64-bit
  platform), eight bytes, modelled as one \<open>64 word\<close>. A member of width \<open>w\<close> occupies the
  low \<open>w\<close> bits (little-endian layout). Assigning to a member rewrites that member's
  bytes; the other bytes of the union keep whatever they held. \<open>float\<close> and \<open>double\<close>
  are carried as their 32- and 64-bit patterns (no arithmetic is done on them here),
  \<open>bool\<close> as one byte holding 0 or 1, \<open>void*\<close> as a 64-bit address.
\<close>

type_synonym Value = "64 word"

definition member_store :: "'a::len word \<Rightarrow> Value \<Rightarrow> Value" where
  "member_store v u = (u AND NOT (mask LENGTH('a))) OR ucast v"

definition member_load :: "Value \<Rightarrow> 'a::len word" where
  "member_load u = ucast u"

definition set_cValue :: "8 word \<Rightarrow> Value \<Rightarrow> Value" where "set_cValue = member_store"

definition set_sValue :: "16 word \<Rightarrow> Value \<Rightarrow> Value" where "set_sValue = member_store"

definition set_iValue :: "32 word \<Rightarrow> Value \<Rightarrow> Value" where "set_iValue = member_store"

definition set_lValue :: "64 word \<Rightarrow> Value \<Rightarrow> Value" where "set_lValue = member_store"

definition set_ucValue :: "8 word \<Rightarrow> Value \<Rightarrow> Value" where "set_ucValue = member_store"

definition set_usValue :: "16 word \<Rightarrow> Value \<Rightarrow> Value" where "set_usValue = member_store"

definition set_uiValue :: "32 word \<Rightarrow> Value \<Rightarrow> Value" where "set_uiValue = member_store"

definition set_ulValue :: "64 word \<Rightarrow> Value \<Rightarrow> Value" where "set_ulValue = member_store"

definition set_fValue :: "32 word \<Rightarrow> Value \<Rightarrow> Value" where "set_fValue = member_store"

definition set_dValue :: "64 word \<Rightarrow> Value \<Rightarrow> Value" where "set_dValue = member_store"

definition set_bValue :: "bool \<Rightarrow> Value \<Rightarrow> Value" where
  "set_bValue b = member_store (if b then 1 else 0 :: 8 word)"

definition set_pValue :: "64 word \<Rightarrow> Value \<Rightarrow> Value" where "set_pValue = member_store"

definition cValue :: "Value \<Rightarrow> 8 word" where "cValue = member_load"

definition sValue :: "Value \<Rightarrow> 16 word" where "sValue = member_load"

definition iValue :: "Value \<Rightarrow> 32 word" where "iValue = member_load"

definition lValue :: "Value \<Rightarrow> 64 word" where "lValue = member_load"

definition ucValue :: "Value \<Rightarrow> 8 word" where "ucValue = member_load"

definition usValue :: "Value \<Rightarrow> 16 word" where "usValue = member_load"

definition uiValue :: "Value \<Rightarrow> 32 word" where "uiValue = member_load"

definition ulValue :: "Value \<Rightarrow> 64 word" where "ulValue = member_load"

definition fValue :: "Value \<Rightarrow> 32 word" where "fValue = member_load"

definition dValue :: "Value \<Rightarrow> 64 word" where "dValue = member_load"

definition bValue :: "Value \<Rightarrow> bool" where
  "bValue u = ((member_load u :: 8 word) \<noteq> 0)"

definition pValue :: "Value \<Rightarrow> 64 word" where "pValue = member_load"

text \<open>
  The variant itself: the vtable pointer (\<open>None\<close> is the null pointer), the type ID and
  the anonymous union \<open>{_pointer, _value, _buffer}\<close>.
\<close>

record PiiVariant =
  pVTable :: "nat option"
  uiType :: uint
  storage :: Value

definition type :: "PiiVariant \<Rightarrow> uint" where
  "type v = uiType v"

text \<open>
  \<open>PII_PRIMITIVE_VARIANT_DECL(TYPE, PREFIX, NAME)\<close>, lines 723-743:
  \<open>PiiVariant(TYPE val) : _pVTable(0), _uiType(NAME ## Type) { _value.PREFIX ## Value = val; }\<close>
  and \<open>valueAs<TYPE>() const { return _value.PREFIX ## Value; }\<close>. The constructor does
  not initialise the union before the assignment: \<open>u\<close> is what the storage held.
\<close>

definition PiiVariant_char :: "8 word \<Rightarrow> Value \<Rightarrow> PiiVariant" where
  "PiiVariant_char val u = \<lparr>pVTable = None, uiType = CharType, storage = set_cValue val u\<rparr>"

definition PiiVariant_short :: "16 word \<Rightarrow> Value \<Rightarrow> PiiVariant" where
  "PiiVariant_short val u = \<lparr>pVTable = None, uiType = ShortType, storage = set_sValue val u\<rparr>"

definition PiiVariant_int :: "32 word \<Rightarrow> Value \<Rightarrow> PiiVariant" where
  "PiiVariant_int val u = \<lparr>pVTable = None, uiType = IntType, storage = set_iValue val u\<rparr>"

definition PiiVariant_qint64 :: "64 word \<Rightarrow> Value \<Rightarrow> PiiVariant" where
  "PiiVariant_qint64 val u = \<lparr>pVTable = None, uiType = Int64Type, storage = set_lValue val u\<rparr>"

definition PiiVariant_uchar :: "8 word \<Rightarrow> Value \<Rightarrow> PiiVariant" where
  "PiiVariant_uchar val u =
     \<lparr>pVTable = None, uiType = UnsignedCharType, storage = set_ucValue val u\<rparr>"

definition PiiVariant_ushort :: "16 word \<Rightarrow> Value \<Rightarrow> PiiVariant" where
  "PiiVariant_ushort val u =
     \<lparr>pVTable = None, uiType = UnsignedShortType, storage = set_usValue val u\<rparr>"

definition PiiVariant_uint :: "32 word \<Rightarrow> Value \<Rightarrow> PiiVariant" where
  "PiiVariant_uint val u =
     \<lparr>pVTable = None, uiType = UnsignedIntType, storage = set_uiValue val u\<rparr>"

definition PiiVariant_quint64 :: "64 word \<Rightarrow> Value \<Rightarrow> PiiVariant" where
  "PiiVariant_quint64 val u =
     \<lparr>pVTable = None, uiType = UnsignedInt64Type, storage = set_ulValue val u\<rparr>"

definition PiiVariant_float :: "32 word \<Rightarrow> Value \<Rightarrow> PiiVariant" where
  "PiiVariant_float val u = \<lparr>pVTable = None, uiType = FloatType, storage = set_fValue val u\<rparr>"

definition PiiVariant_double :: "64 word \<Rightarrow> Value \<Rightarrow> PiiVariant" where
  "PiiVariant_double val u = \<lparr>pVTable = None, uiType = DoubleType, storage = set_dValue val u\<rparr>"

definition PiiVariant_bool :: "bool \<Rightarrow> Value \<Rightarrow> PiiVariant" where
  "PiiVariant_bool val u = \<lparr>pVTable = None, uiType = BoolType, storage = set_bValue val u\<rparr>"

definition PiiVariant_voidptr :: "64 word \<Rightarrow> Value \<Rightarrow> PiiVariant" where
  "PiiVariant_voidptr val u =
     \<lparr>pVTable = None, uiType = VoidPtrType, storage = set_pValue val u\<rparr>"

definition valueAs_char :: "PiiVariant \<Rightarrow> 8 word" where
  "valueAs_char v = cValue (storage v)"

definition valueAs_short :: "PiiVariant \<Rightarrow> 16 word" where
  "valueAs_short v = sValue (storage v)"

definition valueAs_int :: "PiiVariant \<Rightarrow> 32 word" where
  "valueAs_int v = iValue (storage v)"

definition valueAs_qint64 :: "PiiVariant \<Rightarrow> 64 word" where
  "valueAs_qint64 v = lValue (storage v)"

definition valueAs_uchar :: "PiiVariant \<Rightarrow> 8 word" where
  "valueAs_uchar v = ucValue (storage v)"

definition valueAs_ushort :: "PiiVariant \<Rightarrow> 16 word" where
  "valueAs_ushort v = usValue (storage v)"

definition valueAs_uint :: "PiiVariant \<Rightarrow> 32 word" where
  "valueAs_uint v = uiValue (storage v)"

definition valueAs_quint64 :: "PiiVariant \<Rightarrow> 64 word" where
  "valueAs_quint64 v = ulValue (storage v)"

definition valueAs_float :: "PiiVariant \<Rightarrow> 32 word" where
  "valueAs_float v = fValue (storage v)"

definition valueAs_double :: "PiiVariant \<Rightarrow> 64 word" where
  "valueAs_double v = dValue (storage v)"

definition valueAs_bool :: "PiiVariant \<Rightarrow> bool" where
  "valueAs_bool v = bValue (storage v)"

definition valueAs_voidptr :: "PiiVariant \<Rightarrow> 64 word" where
  "valueAs_voidptr v = pValue (storage v)"

section \<open>Conversion (PiiVariant.h, lines 794-813)\<close>

text \<open>
  What a template instance \<open>convertTo<T>\<close> takes from \<open>T\<close>: its type ID
  \<open>Pii::typeId<T>()\<close>, the reinterpretation \<open>*ptrAs<T>()\<close> of the variant's storage, and
  the value-initialised \<open>T()\<close>.
\<close>

record 'a TypeOps =
  typeId :: uint
  ptrAs :: "PiiVariant \<Rightarrow> 'a"
  T_init :: 'a

text \<open>
  \<open>typedef bool (*ConverterFunction)(const PiiVariant*, void*)\<close>: the function gets the
  variant and the address of the result slot; it returns its verdict and may have written
  to the slot. The model passes the slot's content in and gets the content back.
\<close>

type_synonym 'a ConverterFunction = "PiiVariant \<Rightarrow> 'a \<Rightarrow> bool \<times> 'a"

type_synonym 'a ConverterMap = "64 word \<rightharpoonup> 'a ConverterFunction"

text \<open>
  \<open>static inline qint64 toKey(quint64 fromType, quint64 toType)
  { return fromType | (toType << 32); }\<close>
\<close>

definition toKey :: "64 word \<Rightarrow> 64 word \<Rightarrow> 64 word" where
  "toKey fromType toType = fromType OR push_bit 32 toType"

text \<open>
  Modelled from the spec: \<open>PiiVariant::converter(fromType, toType)\<close> is declared in
  PiiVariant.h and defined in PiiVariant.cc, which is not among the sources. Its
  documentation: "Returns the conversion function used to convert fromType to toType. If
  no such converter is registered, returns zero"; the registry is a map keyed by the
  (fromType, toType) pair (\<open>QMap<quint64,ConverterFunction>\<close>, key built by \<open>toKey\<close>).
\<close>

definition converter :: "'a ConverterMap \<Rightarrow> uint \<Rightarrow> uint \<Rightarrow> 'a ConverterFunction option" where
  "converter converterMap fromType toType = converterMap (toKey (ucast fromType) (ucast toType))"

text \<open>
  \<open>template <class T> bool PiiVariant::convertTo(T& value) const\<close>: returns the verdict
  and the content of \<open>value\<close> afterwards.
\<close>

definition convertTo_ref ::
  "'a TypeOps \<Rightarrow> 'a ConverterMap \<Rightarrow> PiiVariant \<Rightarrow> 'a \<Rightarrow> bool \<times> 'a" where
  "convertTo_ref T converterMap this val =
     (if uiType this = typeId T then (True, ptrAs T this)
      else case converter converterMap (uiType this) (typeId T) of
             Some convert \<Rightarrow> convert this val
           | None \<Rightarrow> (False, val))"

text \<open>
  \<open>template <class T> T PiiVariant::convertTo(bool* ok) const\<close>. The pointer \<open>ok\<close> is
  \<open>None\<close> when null, else \<open>Some\<close> of the pointed-to flag; the result is the returned
  value and the flag afterwards.
\<close>

definition convertTo ::
  "'a TypeOps \<Rightarrow> 'a ConverterMap \<Rightarrow> PiiVariant \<Rightarrow> bool option \<Rightarrow> 'a \<times> bool option" where
  "convertTo T converterMap this ok =
     (let val = T_init T;
          (bOk, val') = convertTo_ref T converterMap this val
      in (val', if ok \<noteq> None then Some bOk else ok))"

text \<open>The instance for \<open>int\<close>: \<open>Pii::typeId<int>() = IntType\<close>, \<open>int() = 0\<close>.\<close>

definition T_int :: "32 word TypeOps" where
  "T_int = \<lparr>typeId = IntType, ptrAs = valueAs_int, T_init = 0\<rparr>"

text \<open>
  A converter to \<open>int\<close> that stores 7 in the result slot and then reports failure, and
  the registry in which it is the converter from \<open>bool\<close> to \<open>int\<close>.
\<close>

definition scribblingConverter :: "32 word ConverterFunction" where
  "scribblingConverter var slot = (False, 7)"

definition scribblingMap :: "32 word ConverterMap" where
  "scribblingMap = [toKey (ucast BoolType) (ucast IntType) \<mapsto> scribblingConverter]"

section \<open>Operations, sockets and the flow controller\<close>

text \<open>
  \<open>PiiOperation::State\<close>, the verdicts of \<open>PiiFlowController::prepareProcess()\<close> and
  the codes of \<open>PiiExecutionException\<close>. The code \<open>Paused\<close> is written \<open>CodePaused\<close>
  (and so on) because \<open>Paused\<close> is also a state.
\<close>

datatype State = Stopped | Starting | Running | Pausing | Paused | Stopping | Interrupted

datatype FlowState =
  IncompleteState | ProcessableState | SynchronizedState | ReconfigurableState
  | PausedState | FinishedState | ResumedState

datatype Code = CodeError | CodePaused | CodeFinished

text \<open>
  The callbacks of the parent operation that a processor invokes: \<open>processLocked()\<close>,
  \<open>sendSyncEvents()\<close>, \<open>applyPropertySet()\<close>, \<open>operationPaused()\<close>,
  \<open>operationStopped()\<close>, \<open>operationResumed()\<close>.
\<close>

datatype hook =
  ProcessLocked | SendSyncEvents | ApplyPropertySet
  | OperationPaused | OperationStopped | OperationResumed

text \<open>
  While a callback runs, the state lock is released and the processor's public functions
  can be called again, by the callback itself or by another thread: \<open>Deliver sender obj\<close>
  is \<open>tryToReceive(sender, obj)\<close>, \<open>CallCheck reset\<close> is \<open>check(reset)\<close>, the others
  are \<open>start()\<close>, \<open>stop()\<close>, \<open>pause()\<close> and \<open>interrupt()\<close>. These are all the public
  functions that touch the processor's own state (\<open>reconfigure\<close>, \<open>wait\<close> and the
  priority functions do not). The callbacks themselves do not touch it, so a call made by
  another thread anywhere between \<open>lock.unlock()\<close> and \<open>lock.relock()\<close> has the effect
  of the same call made from the callback running next to it. \<open>check()\<close> takes no lock;
  a \<open>check()\<close> that races with a locked section has the effect of one made just before
  or just after it.
\<close>

datatype 'obj action =
  Deliver nat 'obj | CallCheck bool | CallStart | CallStop | CallPause | CallInterrupt

text \<open>
  An observation log kept beside the program state: every object accepted by a socket
  (with the operation's state at that moment), every answer of the flow controller, every
  entry to and return from a callback, every \<open>setState\<close> and every \<open>errorOccured\<close>
  signal.
\<close>

datatype 'obj event =
  Received nat 'obj State | Verdict FlowState | FlowError Code
  | Enter hook | Leave hook | SetState State | ErrorOccured

text \<open>
  Modelled from the spec: \<open>PiiInputSocket\<close> is not among the sources. The spec describes
  a socket as a "bounded queue abstraction" consumed through \<open>canReceive()\<close>,
  \<open>receive()\<close> and \<open>firstObject()\<close>, where a socket "cannot currently accept" when "its
  queue is full": \<open>canReceive\<close> holds while the queue is shorter than its capacity,
  \<open>receive\<close> appends, and \<open>firstObject\<close> is the object the flow controller last released
  for processing.
\<close>

record 'obj PiiInputSocket =
  queue :: "'obj list"
  capacity :: nat
  firstObject :: "'obj option"

definition canReceive :: "'obj PiiInputSocket \<Rightarrow> bool" where
  "canReceive pInput = (length (queue pInput) < capacity pInput)"

definition receive :: "'obj \<Rightarrow> 'obj PiiInputSocket \<Rightarrow> 'obj PiiInputSocket" where
  "receive object pInput = pInput\<lparr>queue := queue pInput @ [object]\<rparr>"

text \<open>
  What surrounds a processor. \<open>prepareProcess\<close> is the flow controller: from its own state
  and the input sockets it gives a verdict or throws a \<open>PiiExecutionException\<close>, and
  leaves its state and the sockets changed. \<open>hook\<close> is the parent operation's code: seeing
  the operation's state and the sockets, a callback makes a sequence of calls back into
  the processor and then returns (\<open>None\<close>) or throws.
\<close>

record ('obj, 'fc) environment =
  prepareProcess ::
    "'fc \<Rightarrow> (nat \<Rightarrow> 'obj PiiInputSocket) \<Rightarrow>
       (Code + FlowState) \<times> 'fc \<times> (nat \<Rightarrow> 'obj PiiInputSocket)"
  hook :: "hook \<Rightarrow> State \<Rightarrow> (nat \<Rightarrow> 'obj PiiInputSocket) \<Rightarrow> 'obj action list \<times> Code option"

text \<open>
  \<open>PiiOperationProcessor\<close>, the base of both processors: the parent operation's state,
  the flow controller (\<open>None\<close> is the null pointer: no input is connected) and the
  parent's input sockets, addressed by number.
\<close>

record ('obj, 'fc) PiiOperationProcessor =
  state :: State
  pFlowController :: "'fc option"
  inputs :: "nat \<Rightarrow> 'obj PiiInputSocket"
  trace :: "'obj event list"

definition emit :: "'obj event \<Rightarrow> ('obj, 'fc, 'z) PiiOperationProcessor_scheme
    \<Rightarrow> ('obj, 'fc, 'z) PiiOperationProcessor_scheme" where
  "emit e s = s\<lparr>trace := trace s @ [e]\<rparr>"

text \<open>
  Modelled from the spec: \<open>PiiOperation::setState\<close> is not among the sources; the
  operation "has exactly one State field", which it assigns.
\<close>

definition setState :: "State \<Rightarrow> ('obj, 'fc, 'z) PiiOperationProcessor_scheme
    \<Rightarrow> ('obj, 'fc, 'z) PiiOperationProcessor_scheme" where
  "setState st s = emit (SetState st) (s\<lparr>state := st\<rparr>)"

text \<open>
  A call can return, dereference the null flow controller, or still be looping when the
  fuel of the model is used up.
\<close>

datatype 'a outcome = OutOfFuel | NullDeref | Done 'a

text \<open>
  The \<open>switch (state)\<close> of both processors, with its fall-through: \<open>PausedState\<close> runs
  \<open>operationPaused()\<close>, then (if that returns) \<open>operationStopped()\<close> and
  \<open>operationResumed()\<close>.
\<close>

fun hooksFor :: "FlowState \<Rightarrow> hook list" where
  "hooksFor ProcessableState = [ProcessLocked]"
| "hooksFor SynchronizedState = []"
| "hooksFor IncompleteState = []"
| "hooksFor ReconfigurableState = [ApplyPropertySet]"
| "hooksFor PausedState = [OperationPaused, OperationStopped, OperationResumed]"
| "hooksFor FinishedState = [OperationStopped, OperationResumed]"
| "hooksFor ResumedState = [OperationResumed]"

section \<open>The synchronous processor (PiiSimpleProcessor.cc)\<close>

record ('obj, 'fc) PiiSimpleProcessor = "('obj, 'fc) PiiOperationProcessor" +
  bReset :: bool
  bProcessing :: bool

text \<open>\<open>check(bool reset)\<close>, lines 143-148.\<close>

definition simple_check :: "bool \<Rightarrow> ('obj, 'fc) PiiSimpleProcessor \<Rightarrow> ('obj, 'fc) PiiSimpleProcessor" where
  "simple_check reset s =
     (let s1 = s\<lparr>bProcessing := False\<rparr> in if reset then s1\<lparr>bReset := True\<rparr> else s1)"

text \<open>
  \<open>start()\<close>, lines 150-171. \<open>operationResumed()\<close> runs inside \<open>try { } catch (...) {}\<close>
  with no input connected; the log records the call.
\<close>

definition simple_start :: "('obj, 'fc) PiiSimpleProcessor \<Rightarrow> ('obj, 'fc) PiiSimpleProcessor" where
  "simple_start s =
     (if state s = Pausing then s
      else if state s = Paused then
        (if pFlowController s = None
         then emit (Leave OperationResumed) (emit (Enter OperationResumed) (setState Running s))
         else s)
      else setState Running s)"

text \<open>\<open>interrupt()\<close>, lines 173-178.\<close>

definition simple_interrupt :: "('obj, 'fc) PiiSimpleProcessor \<Rightarrow> ('obj, 'fc) PiiSimpleProcessor" where
  "simple_interrupt s = setState Stopped (s\<lparr>bReset := False\<rparr>)"

text \<open>
  \<open>stop(PiiOperation::State finalState)\<close>, lines 211-244, called by \<open>pause()\<close> with
  \<open>Paused\<close> and by \<open>stop()\<close> with \<open>Stopped\<close>.
\<close>

definition simple_stop_to :: "State \<Rightarrow> ('obj, 'fc) PiiSimpleProcessor \<Rightarrow> ('obj, 'fc) PiiSimpleProcessor" where
  "simple_stop_to finalState s =
     (if state s = Running then
        (if pFlowController s \<noteq> None
         then setState (if finalState = Stopped then Stopping else Pausing) s
         else
           (let s1 = setState finalState s;
                h = (if finalState = Paused then OperationPaused else OperationStopped)
            in emit (Leave h) (emit (Enter h) s1)))
      else s)"

definition simple_pause :: "('obj, 'fc) PiiSimpleProcessor \<Rightarrow> ('obj, 'fc) PiiSimpleProcessor" where
  "simple_pause s = simple_stop_to Paused s"

definition simple_stop :: "('obj, 'fc) PiiSimpleProcessor \<Rightarrow> ('obj, 'fc) PiiSimpleProcessor" where
  "simple_stop s = simple_stop_to Stopped s"

text \<open>\<open>bool wait(unsigned long)\<close>, lines 246-249.\<close>

definition simple_wait :: "64 word \<Rightarrow> ('obj, 'fc) PiiSimpleProcessor \<Rightarrow> bool" where
  "simple_wait time s = True"

text \<open>
  The handler \<open>catch (PiiExecutionException& ex)\<close> of \<open>tryToReceive\<close>, lines 109-135.
\<close>

definition simple_catch :: "Code \<Rightarrow> ('obj, 'fc) PiiSimpleProcessor \<Rightarrow> ('obj, 'fc) PiiSimpleProcessor" where
  "simple_catch code s =
     (let s1 = s\<lparr>bProcessing := False\<rparr> in
      if code = CodePaused \<and> state s1 \<noteq> Stopped then setState Paused s1
      else
        (let s2 = (if code = CodeError then emit ErrorOccured s1 else s1)
         in setState Stopped (s2\<lparr>bReset := False\<rparr>)))"

text \<open>
  \<open>tryToReceive\<close>, lines 29-141. \<open>simple_tryToReceive\<close> is the function; \<open>simple_dispatch\<close>
  is its \<open>try { do { } while (_bReset); } catch\<close> block followed by \<open>return true\<close>, one
  unit of fuel for each turn of the loop; \<open>simple_callHooks\<close> runs the callbacks of one
  turn in order until one throws; \<open>simple_runActions\<close> performs the calls a callback makes
  back into this processor.
\<close>

function (sequential)
  simple_tryToReceive ::
    "nat \<Rightarrow> ('obj, 'fc) environment \<Rightarrow> nat \<Rightarrow> 'obj \<Rightarrow> ('obj, 'fc) PiiSimpleProcessor
       \<Rightarrow> (bool \<times> ('obj, 'fc) PiiSimpleProcessor) outcome"
  and simple_dispatch ::
    "nat \<Rightarrow> ('obj, 'fc) environment \<Rightarrow> ('obj, 'fc) PiiSimpleProcessor
       \<Rightarrow> (bool \<times> ('obj, 'fc) PiiSimpleProcessor) outcome"
  and simple_callHooks ::
    "nat \<Rightarrow> ('obj, 'fc) environment \<Rightarrow> hook list \<Rightarrow> ('obj, 'fc) PiiSimpleProcessor
       \<Rightarrow> (Code option \<times> ('obj, 'fc) PiiSimpleProcessor) outcome"
  and simple_runActions ::
    "nat \<Rightarrow> ('obj, 'fc) environment \<Rightarrow> 'obj action list \<Rightarrow> ('obj, 'fc) PiiSimpleProcessor
       \<Rightarrow> ('obj, 'fc) PiiSimpleProcessor outcome"
where
  "simple_tryToReceive n env sender object s =
     (if \<not> bReset s then Done (True, s)
      else
        (let s1 = (if state s = Stopped \<or> state s = Paused then setState Running s else s) in
         if canReceive (inputs s1 sender) then
           (let s2 = emit (Received sender object (state s1))
                       (s1\<lparr>inputs := (inputs s1)(sender := receive object (inputs s1 sender))\<rparr>) in
            if bProcessing s2 then Done (True, s2)
            else simple_dispatch n env s2)
         else Done (False, s1)))"
| "simple_dispatch 0 env s = OutOfFuel"
| "simple_dispatch (Suc n) env s =
     (case pFlowController s of
        None \<Rightarrow> NullDeref
      | Some fc \<Rightarrow>
          (case prepareProcess env fc (inputs s) of
             (Inl code, fc', ins') \<Rightarrow>
               Done (True, simple_catch code
                 (emit (FlowError code) (s\<lparr>pFlowController := Some fc', inputs := ins'\<rparr>)))
           | (Inr flow, fc', ins') \<Rightarrow>
               (let s1 = emit (Verdict flow) (s\<lparr>pFlowController := Some fc', inputs := ins'\<rparr>) in
                if flow = IncompleteState then Done (True, s1)
                else
                  (case simple_callHooks n env (SendSyncEvents # hooksFor flow)
                          (s1\<lparr>bProcessing := True\<rparr>) of
                     OutOfFuel \<Rightarrow> OutOfFuel
                   | NullDeref \<Rightarrow> NullDeref
                   | Done (Some code, s2) \<Rightarrow> Done (True, simple_catch code s2)
                   | Done (None, s2) \<Rightarrow>
                       (let s3 = s2\<lparr>bProcessing := False\<rparr> in
                        if bReset s3 then simple_dispatch n env s3 else Done (True, s3))))))"
| "simple_callHooks n env [] s = Done (None, s)"
| "simple_callHooks n env (h # hs) s =
     (case simple_runActions n env (fst (hook env h (state s) (inputs s))) (emit (Enter h) s) of
        OutOfFuel \<Rightarrow> OutOfFuel
      | NullDeref \<Rightarrow> NullDeref
      | Done s1 \<Rightarrow>
          (case snd (hook env h (state s) (inputs s)) of
             Some code \<Rightarrow> Done (Some code, emit (Leave h) s1)
           | None \<Rightarrow> simple_callHooks n env hs (emit (Leave h) s1)))"
| "simple_runActions n env [] s = Done s"
| "simple_runActions n env (Deliver sender object # as) s =
     (case simple_tryToReceive n env sender object s of
        OutOfFuel \<Rightarrow> OutOfFuel
      | NullDeref \<Rightarrow> NullDeref
      | Done (r, s1) \<Rightarrow> simple_runActions n env as s1)"
| "simple_runActions n env (CallCheck reset # as) s =
     simple_runActions n env as (simple_check reset s)"
| "simple_runActions n env (CallStart # as) s = simple_runActions n env as (simple_start s)"
| "simple_runActions n env (CallStop # as) s = simple_runActions n env as (simple_stop s)"
| "simple_runActions n env (CallPause # as) s = simple_runActions n env as (simple_pause s)"
| "simple_runActions n env (CallInterrupt # as) s =
     simple_runActions n env as (simple_interrupt s)"
  by pat_completeness auto
termination
  by (relation "inv_image (less_than <*lex*> less_than <*lex*> less_than)
        (\<lambda>x. case x of
           Inl (Inl (n, env, sender, object, s)) \<Rightarrow> (n, 1, 0)
         | Inl (Inr (n, env, s)) \<Rightarrow> (n, 0, 0)
         | Inr (Inl (n, env, hs, s)) \<Rightarrow> (n, 3, length hs)
         | Inr (Inr (n, env, as, s)) \<Rightarrow> (n, 2, length as))")
     auto

text \<open>
  Modelled from the spec: the flow controller of an operation with one input is not among
  the sources. The spec gives its verdicts: "Incomplete (not enough input yet - do
  nothing), Processable (invoke process())". While an object is queued in input 0 it
  releases the oldest one to \<open>firstObject\<close> and answers \<open>ProcessableState\<close>; with
  nothing queued it answers \<open>IncompleteState\<close>. Its own state is the list of objects it
  has released so far, in order.
\<close>

definition oneInputFlow ::
  "'obj list \<Rightarrow> (nat \<Rightarrow> 'obj PiiInputSocket) \<Rightarrow>
     (Code + FlowState) \<times> 'obj list \<times> (nat \<Rightarrow> 'obj PiiInputSocket)" where
  "oneInputFlow released ins =
     (case queue (ins 0) of
        [] \<Rightarrow> (Inr IncompleteState, released, ins)
      | x # xs \<Rightarrow>
          (Inr ProcessableState, released @ [x],
           ins(0 := (ins 0)\<lparr>queue := xs, firstObject := Some x\<rparr>)))"

text \<open>An operation whose callbacks return without calling back into the processor.\<close>

definition plainOperation :: "('obj, 'obj list) environment" where
  "plainOperation = \<lparr>prepareProcess = oneInputFlow, hook = (\<lambda>h st ins. ([], None))\<rparr>"



text \<open>
  A freshly constructed synchronous processor (constructor, lines 22-27) of a stopped
  operation with a flow controller, whose sockets are empty and hold up to \<open>cap\<close> objects.
\<close>

definition newSimple :: "nat \<Rightarrow> 'fc \<Rightarrow> ('obj, 'fc) PiiSimpleProcessor" where
  "newSimple cap fc =
     \<lparr>state = Stopped, pFlowController = Some fc,
      inputs = (\<lambda>i. \<lparr>queue = [], capacity = cap, firstObject = None\<rparr>),
      trace = [], bReset = False, bProcessing = False\<rparr>"

text \<open>
  The processor of the scenarios: constructed, \<open>check(true)\<close>, \<open>start()\<close>, with the
  one-input flow controller that has released nothing yet.
\<close>

definition armedSimple :: "nat \<Rightarrow> ('obj, 'obj list) PiiSimpleProcessor" where
  "armedSimple cap = simple_start (simple_check True (newSimple cap []))"



section \<open>Reading the log\<close>




text \<open>
  Events that do not set a transitional state (\<open>stableOnly\<close>), and events that set neither
  \<open>Starting\<close> nor \<open>Interrupted\<close> (\<open>settled\<close>).
\<close>

fun stableOnly :: "'obj event \<Rightarrow> bool" where
  "stableOnly (SetState st) = (st = Stopped \<or> st = Running \<or> st = Paused)"
| "stableOnly e = True"

fun settled :: "'obj event \<Rightarrow> bool" where
  "settled (SetState st) = (st \<noteq> Starting \<and> st \<noteq> Interrupted)"
| "settled e = True"



text \<open>An operation whose callbacks never call \<open>stop()\<close> or \<open>pause()\<close>.\<close>

definition quiet :: "('obj, 'fc) environment \<Rightarrow> bool" where
  "quiet env =
     (\<forall>h st ins. CallStop \<notin> set (fst (hook env h st ins)) \<and>
                 CallPause \<notin> set (fst (hook env h st ins)))"

text \<open>
  Lines 37-38 of \<open>tryToReceive\<close> (a stopped or paused operation is set running) and
  line 43 (the socket takes the object), as state transformers.
\<close>

definition resumed :: "('obj, 'fc) PiiSimpleProcessor \<Rightarrow> ('obj, 'fc) PiiSimpleProcessor" where
  "resumed s = (if state s = Stopped \<or> state s = Paused then setState Running s else s)"

definition accepted ::
  "nat \<Rightarrow> 'obj \<Rightarrow> ('obj, 'fc) PiiSimpleProcessor \<Rightarrow> ('obj, 'fc) PiiSimpleProcessor" where
  "accepted sender object s =
     emit (Received sender object (state s))
       (s\<lparr>inputs := (inputs s)(sender := receive object (inputs s sender))\<rparr>)"

text \<open>
  \<open>logs P s s'\<close>: the log of \<open>s'\<close> is that of \<open>s\<close> followed by events that all satisfy
  \<open>P\<close>; \<open>extends Q s s'\<close>: it is followed by a list of events satisfying \<open>Q\<close>.
\<close>

definition logs ::
  "('obj event \<Rightarrow> bool) \<Rightarrow> ('obj, 'fc, 'z) PiiOperationProcessor_scheme
     \<Rightarrow> ('obj, 'fc, 'z) PiiOperationProcessor_scheme \<Rightarrow> bool" where
  "logs P s s' = (\<exists>evs. trace s' = trace s @ evs \<and> list_all P evs)"


text \<open>
  \<open>inner P\<close>: \<open>P\<close> admits every event that \<open>tryToReceive\<close> behind the guard,
  \<open>start()\<close>, \<open>interrupt()\<close>, and \<open>stop()\<close> and \<open>pause()\<close> without a flow controller
  can log. \<open>calls_ok P as\<close>: \<open>P\<close> admits what the \<open>stop()\<close> and \<open>pause()\<close> among the
  calls \<open>as\<close> log with a flow controller. \<open>core P\<close>: \<open>P\<close> moreover admits what the
  dispatch loop itself logs. \<open>closed_log Q P\<close>: \<open>Q\<close> admits every log
  that one turn of the dispatch loop can write when the calls made inside a callback log
  only events in \<open>P\<close>.
\<close>

definition inner :: "('obj event \<Rightarrow> bool) \<Rightarrow> bool" where
  "inner P =
     ((\<forall>i x st. P (Received i x st)) \<and> P (SetState Running) \<and> P (SetState Stopped) \<and>
      P (SetState Paused) \<and>
      P (Enter OperationResumed) \<and> P (Leave OperationResumed) \<and>
      P (Enter OperationPaused) \<and> P (Leave OperationPaused) \<and>
      P (Enter OperationStopped) \<and> P (Leave OperationStopped))"

definition core :: "('obj event \<Rightarrow> bool) \<Rightarrow> bool" where
  "core P =
     (inner P \<and> (\<forall>f. P (Verdict f)) \<and> (\<forall>c. P (FlowError c)) \<and> P ErrorOccured \<and>
      (\<forall>h. P (Enter h) \<and> P (Leave h)))"

definition calls_ok :: "('obj event \<Rightarrow> bool) \<Rightarrow> 'obj action list \<Rightarrow> bool" where
  "calls_ok P as =
     ((CallStop \<in> set as \<longrightarrow> P (SetState Stopping)) \<and>
      (CallPause \<in> set as \<longrightarrow> P (SetState Pausing)))"

definition env_ok :: "('obj event \<Rightarrow> bool) \<Rightarrow> ('obj, 'fc) environment \<Rightarrow> bool" where
  "env_ok P env = (\<forall>h st ins. calls_ok P (fst (hook env h st ins)))"


section \<open>The threaded processor (PiiThreadedProcessor.cc)\<close>

text \<open>
  Where the processor's thread is in \<open>run()\<close>: not started (or finished); at the top of
  \<open>run()\<close>; at the test of the \<open>while\<close> loop; in \<open>_inputCondition.wait()\<close> of line 207;
  at the test of line 210 after that wait; about to call \<open>prepareAndProcess()\<close>; in
  \<open>_inputCondition.wait()\<close> of line 247; returned from \<open>run()\<close> with the \<open>finished()\<close>
  signal still to be delivered.
\<close>

datatype location =
  NoThread | AtRun | AtLoopTest | InInputWait | AfterInputWait | AtPrepare
  | InPausedWait | Finished

text \<open>
  Modelled from the spec: \<open>PiiWaitCondition\<close> is not among the sources. The spec: "a
  single-thread, single-waiter queue - at most one signal outstanding is required, extra
  signals are harmless". \<open>signalled\<close> is the outstanding signal of the \<open>NoQueue\<close>
  condition: \<open>wakeOne()\<close> sets it, \<open>wait()\<close> blocks while it is unset and takes it when
  returning. \<open>wakeAll()\<close> releases a waiting thread and otherwise discards the signal (the
  sources: "we clear any pending signals", "it is safe to reset the input condition").
\<close>

record ('obj, 'fc) PiiThreadedProcessor = "('obj, 'fc) PiiOperationProcessor" +
  signalled :: bool
  bMustReconfigure :: bool
  pc :: location

definition wakeOne :: "('obj, 'fc) PiiThreadedProcessor \<Rightarrow> ('obj, 'fc) PiiThreadedProcessor" where
  "wakeOne s = s\<lparr>signalled := True\<rparr>"

definition wakeAll :: "('obj, 'fc) PiiThreadedProcessor \<Rightarrow> ('obj, 'fc) PiiThreadedProcessor" where
  "wakeAll s = s\<lparr>signalled := (pc s = InInputWait \<or> pc s = InPausedWait)\<rparr>"

definition blocked :: "('obj, 'fc) PiiThreadedProcessor \<Rightarrow> bool" where
  "blocked s = ((pc s = InInputWait \<or> pc s = InPausedWait) \<and> \<not> signalled s)"

text \<open>\<open>setStopped()\<close>, lines 41-49, the slot connected to \<open>finished()\<close> at line 26.\<close>

definition setStopped :: "('obj, 'fc) PiiThreadedProcessor \<Rightarrow> ('obj, 'fc) PiiThreadedProcessor" where
  "setStopped s = setState Stopped s"

text \<open>\<open>check(bool reset)\<close>, lines 51-59.\<close>

definition threaded_check :: "bool \<Rightarrow> ('obj, 'fc) PiiThreadedProcessor \<Rightarrow> ('obj, 'fc) PiiThreadedProcessor" where
  "threaded_check reset s = (if reset then wakeAll s else s)\<lparr>bMustReconfigure := False\<rparr>"

text \<open>
  \<open>start()\<close>, lines 61-80. \<open>QThread::start\<close> begins \<open>run()\<close> in a new thread unless the
  thread is already running.
\<close>

definition threaded_start :: "('obj, 'fc) PiiThreadedProcessor \<Rightarrow> ('obj, 'fc) PiiThreadedProcessor" where
  "threaded_start s =
     (if state s = Stopped then
        (let s1 = setState Starting s in if pc s1 = NoThread then s1\<lparr>pc := AtRun\<rparr> else s1)
      else if state s = Paused then wakeOne s
      else s)"

text \<open>\<open>interrupt()\<close>, lines 82-93.\<close>

definition threaded_interrupt :: "('obj, 'fc) PiiThreadedProcessor \<Rightarrow> ('obj, 'fc) PiiThreadedProcessor" where
  "threaded_interrupt s =
     wakeOne (if state s \<noteq> Stopped then setState Interrupted s else s)"

text \<open>\<open>pause()\<close>, lines 95-102, and \<open>stop()\<close>, lines 110-117.\<close>

definition threaded_pause :: "('obj, 'fc) PiiThreadedProcessor \<Rightarrow> ('obj, 'fc) PiiThreadedProcessor" where
  "threaded_pause s = (if state s \<noteq> Running then s else setState Pausing s)"

definition threaded_stop :: "('obj, 'fc) PiiThreadedProcessor \<Rightarrow> ('obj, 'fc) PiiThreadedProcessor" where
  "threaded_stop s = (if state s \<noteq> Running then s else setState Stopping s)"

text \<open>\<open>reconfigure(const QString&)\<close>, lines 104-108.\<close>

definition threaded_reconfigure :: "('obj, 'fc) PiiThreadedProcessor \<Rightarrow> ('obj, 'fc) PiiThreadedProcessor" where
  "threaded_reconfigure s = s\<lparr>bMustReconfigure := True\<rparr>"

text \<open>\<open>tryToReceive\<close>, lines 124-139.\<close>

definition threaded_tryToReceive ::
  "nat \<Rightarrow> 'obj \<Rightarrow> ('obj, 'fc) PiiThreadedProcessor \<Rightarrow> bool \<times> ('obj, 'fc) PiiThreadedProcessor" where
  "threaded_tryToReceive sender object s =
     (if canReceive (inputs s sender) then
        (True, wakeOne (emit (Received sender object (state s))
                 (s\<lparr>inputs := (inputs s)(sender := receive object (inputs s sender))\<rparr>)))
      else (False, s))"

text \<open>The calls a callback makes back into the threaded processor.\<close>

fun threaded_runActions ::
  "'obj action list \<Rightarrow> ('obj, 'fc) PiiThreadedProcessor \<Rightarrow> ('obj, 'fc) PiiThreadedProcessor" where
  "threaded_runActions [] s = s"
| "threaded_runActions (Deliver sender object # as) s =
     threaded_runActions as (snd (threaded_tryToReceive sender object s))"
| "threaded_runActions (CallCheck reset # as) s =
     threaded_runActions as (threaded_check reset s)"
| "threaded_runActions (CallStart # as) s = threaded_runActions as (threaded_start s)"
| "threaded_runActions (CallStop # as) s = threaded_runActions as (threaded_stop s)"
| "threaded_runActions (CallPause # as) s = threaded_runActions as (threaded_pause s)"
| "threaded_runActions (CallInterrupt # as) s = threaded_runActions as (threaded_interrupt s)"

text \<open>Callbacks run in order by the thread until one throws.\<close>

fun threaded_callHooks ::
  "('obj, 'fc) environment \<Rightarrow> hook list \<Rightarrow> ('obj, 'fc) PiiThreadedProcessor
     \<Rightarrow> Code option \<times> ('obj, 'fc) PiiThreadedProcessor" where
  "threaded_callHooks env [] s = (None, s)"
| "threaded_callHooks env (h # hs) s =
     (let s1 = emit (Leave h)
                 (threaded_runActions (fst (hook env h (state s) (inputs s))) (emit (Enter h) s))
      in case snd (hook env h (state s) (inputs s)) of
           Some code \<Rightarrow> (Some code, s1)
         | None \<Rightarrow> threaded_callHooks env hs s1)"

text \<open>
  \<open>prepareAndProcess()\<close>, lines 141-182: \<open>None\<close> when it returns, \<open>Some code\<close> when an
  exception leaves it; one unit of fuel for each turn of its loop.
\<close>

fun prepareAndProcess ::
  "nat \<Rightarrow> ('obj, 'fc) environment \<Rightarrow> ('obj, 'fc) PiiThreadedProcessor
     \<Rightarrow> (Code option \<times> ('obj, 'fc) PiiThreadedProcessor) outcome" where
  "prepareAndProcess 0 env s = OutOfFuel"
| "prepareAndProcess (Suc n) env s =
     (let s0 = wakeAll s in
      case pFlowController s0 of
        None \<Rightarrow> NullDeref
      | Some fc \<Rightarrow>
          (case prepareProcess env fc (inputs s0) of
             (Inl code, fc', ins') \<Rightarrow>
               Done (Some code,
                     emit (FlowError code) (s0\<lparr>pFlowController := Some fc', inputs := ins'\<rparr>))
           | (Inr flow, fc', ins') \<Rightarrow>
               (let s1 = emit (Verdict flow) (s0\<lparr>pFlowController := Some fc', inputs := ins'\<rparr>) in
                if flow = IncompleteState then Done (None, s1)
                else
                  (case threaded_callHooks env (SendSyncEvents # hooksFor flow) s1 of
                     (Some code, s2) \<Rightarrow> Done (Some code, s2)
                   | (None, s2) \<Rightarrow> prepareAndProcess n env s2))))"

text \<open>The handler \<open>catch (PiiExecutionException& ex)\<close> of \<open>run()\<close>, lines 236-282, up to
  its wait or its \<open>return\<close>.\<close>

definition threaded_catch :: "Code \<Rightarrow> ('obj, 'fc) PiiThreadedProcessor \<Rightarrow> ('obj, 'fc) PiiThreadedProcessor" where
  "threaded_catch code s =
     (if code = CodePaused \<and> state s \<noteq> Interrupted
      then (setState Paused s)\<lparr>pc := InPausedWait\<rparr>
      else
        (let s1 = setState Stopping s;
             s2 = (if code = CodeError then emit ErrorOccured s1 else s1)
         in s2\<lparr>pc := Finished\<rparr>))"

text \<open>
  The body of the loop of \<open>run()\<close> for an operation without connected inputs, lines
  219-233.
\<close>

definition producerBody ::
  "('obj, 'fc) environment \<Rightarrow> ('obj, 'fc) PiiThreadedProcessor
     \<Rightarrow> Code option \<times> ('obj, 'fc) PiiThreadedProcessor" where
  "producerBody env s =
     (case threaded_callHooks env [ProcessLocked] s of
        (Some code, s1) \<Rightarrow> (Some code, s1)
      | (None, s1) \<Rightarrow>
          (case (if bMustReconfigure s1 then threaded_callHooks env [ApplyPropertySet] s1
                 else (None, s1)) of
             (Some code, s2) \<Rightarrow> (Some code, s2)
           | (None, s2) \<Rightarrow>
               (let s3 = (if bMustReconfigure s1 then s2\<lparr>bMustReconfigure := False\<rparr> else s2) in
                if state s3 = Pausing then threaded_callHooks env [OperationPaused] s3
                else if state s3 = Stopping then threaded_callHooks env [OperationStopped] s3
                else (None, s3))))"

text \<open>
  One move of the processor's thread through \<open>run()\<close>, lines 184-284, followed by the
  delivery of \<open>finished()\<close> to \<open>setStopped()\<close>. A thread that is blocked in a wait, and a
  thread that does not exist, do not move.
\<close>

definition threaded_step ::
  "nat \<Rightarrow> ('obj, 'fc) environment \<Rightarrow> ('obj, 'fc) PiiThreadedProcessor
     \<Rightarrow> ('obj, 'fc) PiiThreadedProcessor outcome" where
  "threaded_step n env s =
     (case pc s of
        NoThread \<Rightarrow> Done s
      | AtRun \<Rightarrow>
          Done ((if state s = Starting then setState Running s else s)\<lparr>pc := AtLoopTest\<rparr>)
      | AtLoopTest \<Rightarrow>
          (if state s = Interrupted then Done (s\<lparr>pc := Finished\<rparr>)
           else if pFlowController s \<noteq> None then Done (s\<lparr>pc := InInputWait\<rparr>)
           else
             (case producerBody env s of
                (Some code, s1) \<Rightarrow> Done (threaded_catch code s1)
              | (None, s1) \<Rightarrow> Done (s1\<lparr>pc := AtLoopTest\<rparr>)))
      | InInputWait \<Rightarrow>
          (if signalled s then Done (s\<lparr>signalled := False, pc := AfterInputWait\<rparr>) else Done s)
      | AfterInputWait \<Rightarrow>
          (if state s = Interrupted then Done (s\<lparr>pc := Finished\<rparr>)
           else Done (s\<lparr>pc := AtPrepare\<rparr>))
      | AtPrepare \<Rightarrow>
          (case prepareAndProcess n env s of
             OutOfFuel \<Rightarrow> OutOfFuel
           | NullDeref \<Rightarrow> NullDeref
           | Done (Some code, s1) \<Rightarrow> Done (threaded_catch code s1)
           | Done (None, s1) \<Rightarrow> Done (s1\<lparr>pc := AtLoopTest\<rparr>))
      | InPausedWait \<Rightarrow>
          (if signalled s then
             (let s1 = s\<lparr>signalled := False\<rparr>;
                  s2 = (if state s1 = Paused then
                          setState Running
                            (if pFlowController s1 = None
                             then emit (Leave OperationResumed) (emit (Enter OperationResumed) s1)
                             else wakeOne s1)
                        else s1)
              in Done (s2\<lparr>pc := AtLoopTest\<rparr>))
           else Done s)
      | Finished \<Rightarrow> Done ((setStopped s)\<lparr>pc := NoThread\<rparr>))"

text \<open>The thread makes \<open>k\<close> moves.\<close>

fun threaded_steps ::
  "nat \<Rightarrow> nat \<Rightarrow> ('obj, 'fc) environment \<Rightarrow> ('obj, 'fc) PiiThreadedProcessor
     \<Rightarrow> ('obj, 'fc) PiiThreadedProcessor outcome" where
  "threaded_steps 0 n env s = Done s"
| "threaded_steps (Suc k) n env s =
     (case threaded_step n env s of
        OutOfFuel \<Rightarrow> OutOfFuel
      | NullDeref \<Rightarrow> NullDeref
      | Done s1 \<Rightarrow> threaded_steps k n env s1)"

text \<open>
  A threaded operation with a connected input whose thread is blocked waiting for input:
  running, nothing queued, no signal outstanding.
\<close>

definition waitingThreaded :: "nat \<Rightarrow> 'fc \<Rightarrow> ('obj, 'fc) PiiThreadedProcessor" where
  "waitingThreaded cap fc =
     \<lparr>state = Running, pFlowController = Some fc,
      inputs = (\<lambda>i. \<lparr>queue = [], capacity = cap, firstObject = None\<rparr>),
      trace = [], signalled = False, bMustReconfigure = False, pc = InInputWait\<rparr>"

section \<open>Type categories\<close>

lemmas PrimitiveType_defs =
  CharType_def ShortType_def IntType_def Int64Type_def
  UnsignedCharType_def UnsignedShortType_def UnsignedIntType_def UnsignedInt64Type_def
  FloatType_def DoubleType_def BoolType_def VoidPtrType_def LastPrimitiveType_def
  InvalidType_def

lemma and_not_mask5: "(t::uint) AND NOT (mask 5) = t - (t AND mask 5)"
proof -
  have "t - (t AND mask 5) = t AND NOT (t AND mask 5)"
    by (rule disjunctive_diff_eq_and_not) (auto simp add: bit_eq_iff bit_simps)
  also have "\<dots> = t AND NOT (mask 5)"
    by (auto simp add: bit_eq_iff bit_simps)
  finally show ?thesis by simp
qed

lemma unat_and_not_mask5: "unat ((t::uint) AND NOT (mask 5)) = unat t - unat t mod 32"
proof -
  have le: "t AND mask 5 \<le> t" by (rule word_and_le2)
  have m: "unat (t AND mask 5) = unat t mod 32"
    using unsigned_take_bit_eq [of 5 t, where ?'a = nat]
    by (simp only: take_bit_eq_mask [symmetric] take_bit_eq_mod) simp
  show ?thesis
    by (simp only: and_not_mask5 unat_sub [OF le] m)
qed

lemma not_1f: "NOT (0x1f::uint) = NOT (mask 5)"
  by (simp add: mask_eq_exp_minus_1)

lemma round_down_32: "((n::nat) - n mod 32 = 32 * q) = (32 * q \<le> n \<and> n < 32 * q + 32)"
proof -
  have d: "n - n mod 32 = 32 * (n div 32)"
    by (simp add: minus_mod_eq_mult_div)
  have "(n div 32 = q) = (32 * q \<le> n \<and> n < 32 * q + 32)"
    using mult_div_mod_eq [of 32 n] mod_less_divisor [of 32 n]
    by (auto simp del: mult_div_mod_eq)
  thus ?thesis by (simp add: d)
qed

text \<open>The range each predicate decides.\<close>

lemma isPrimitive_range: "isPrimitive t = (t \<le> 0x19)"
  by (simp add: isPrimitive_def PrimitiveType_defs)

lemma isControlType_range: "isControlType t = (0x20 \<le> t \<and> t \<le> 0x3F)"
proof -
  have "isControlType t = (unat (t AND NOT (mask 5)) = unat (0x20::uint))"
    unfolding isControlType_def by (simp only: word_unat_eq_iff not_1f)
  also have "\<dots> = (unat t - unat t mod 32 = 32 * 1)"
    by (simp only: unat_and_not_mask5) simp
  also have "\<dots> = (32 \<le> unat t \<and> unat t < 64)"
    by (simp only: round_down_32) simp
  also have "\<dots> = (0x20 \<le> t \<and> t \<le> 0x3F)"
    by (auto simp add: word_le_nat_alt)
  finally show ?thesis .
qed

lemma isMatrixType_range: "isMatrixType t = (0x40 \<le> t \<and> t \<le> 0x5F)"
proof -
  have "isMatrixType t = (unat (t AND NOT (mask 5)) = unat (0x40::uint))"
    unfolding isMatrixType_def by (simp only: word_unat_eq_iff not_1f)
  also have "\<dots> = (unat t - unat t mod 32 = 32 * 2)"
    by (simp only: unat_and_not_mask5) simp
  also have "\<dots> = (64 \<le> unat t \<and> unat t < 96)"
    by (simp only: round_down_32) simp
  also have "\<dots> = (0x40 \<le> t \<and> t \<le> 0x5F)"
    by (auto simp add: word_le_nat_alt)
  finally show ?thesis .
qed

text \<open>
  C3. Claimed: \<open>isPrimitive(t)\<close> holds exactly for \<open>0x00 \<le> t \<le> 0x1F\<close>,
  \<open>isControlType(t)\<close> exactly for \<open>0x20 \<le> t \<le> 0x3F\<close>, \<open>isMatrixType(t)\<close> exactly
  for \<open>0x40 \<le> t \<le> 0x7F\<close>. The code's \<open>isMatrixType\<close> rejects the ID \<open>0x60\<close>, inside
  the range \<open>0x40-0x7f\<close> that PiiYdinTypes.h documents as the matrix range, and its
  \<open>isPrimitive\<close> rejects the ID \<open>0x1A\<close>, inside the range 0-31 that PiiVariant.h
  documents as the primitive range.
\<close>

theorem type_predicates_reject_documented_ids:
  "isMatrixType 0x60 = False \<and> isPrimitive 0x1A = False"
  by (simp add: isMatrixType_def isPrimitive_def PrimitiveType_defs)

section \<open>Primitive values in a variant\<close>

lemma member_roundtrip:
  "LENGTH('a::len) \<le> 64 \<Longrightarrow> member_load (member_store (v::'a word) u) = v"
  unfolding member_load_def member_store_def
  by (rule bit_eqI) (auto simp add: bit_simps)

lemma bValue_roundtrip: "bValue (set_bValue b u) = b"
  by (simp add: bValue_def set_bValue_def member_roundtrip)

text \<open>
  C8. For each of the twelve primitive types, constructing a variant from a value and
  reading it back with \<open>valueAs\<close> at the same type yields the value, and the variant's
  \<open>type()\<close> is the type's primitive ID, whatever the storage held before.
\<close>

theorem primitive_variant_roundtrip:
  "valueAs_char (PiiVariant_char c u) = c \<and> type (PiiVariant_char c u) = CharType \<and>
   valueAs_short (PiiVariant_short sh u) = sh \<and> type (PiiVariant_short sh u) = ShortType \<and>
   valueAs_int (PiiVariant_int i u) = i \<and> type (PiiVariant_int i u) = IntType \<and>
   valueAs_qint64 (PiiVariant_qint64 l u) = l \<and> type (PiiVariant_qint64 l u) = Int64Type \<and>
   valueAs_uchar (PiiVariant_uchar uc u) = uc \<and>
     type (PiiVariant_uchar uc u) = UnsignedCharType \<and>
   valueAs_ushort (PiiVariant_ushort us u) = us \<and>
     type (PiiVariant_ushort us u) = UnsignedShortType \<and>
   valueAs_uint (PiiVariant_uint ui u) = ui \<and>
     type (PiiVariant_uint ui u) = UnsignedIntType \<and>
   valueAs_quint64 (PiiVariant_quint64 ul u) = ul \<and>
     type (PiiVariant_quint64 ul u) = UnsignedInt64Type \<and>
   valueAs_float (PiiVariant_float f u) = f \<and> type (PiiVariant_float f u) = FloatType \<and>
   valueAs_double (PiiVariant_double d u) = d \<and> type (PiiVariant_double d u) = DoubleType \<and>
   valueAs_bool (PiiVariant_bool b u) = b \<and> type (PiiVariant_bool b u) = BoolType \<and>
   valueAs_voidptr (PiiVariant_voidptr p u) = p \<and>
     type (PiiVariant_voidptr p u) = VoidPtrType"
proof -
  have c: "valueAs_char (PiiVariant_char c u) = c"
    by (simp add: valueAs_char_def PiiVariant_char_def cValue_def set_cValue_def member_roundtrip)
  have sh: "valueAs_short (PiiVariant_short sh u) = sh"
    by (simp add: valueAs_short_def PiiVariant_short_def sValue_def set_sValue_def member_roundtrip)
  have i: "valueAs_int (PiiVariant_int i u) = i"
    by (simp add: valueAs_int_def PiiVariant_int_def iValue_def set_iValue_def member_roundtrip)
  have l: "valueAs_qint64 (PiiVariant_qint64 l u) = l"
    by (simp add: valueAs_qint64_def PiiVariant_qint64_def lValue_def set_lValue_def member_roundtrip)
  have uc: "valueAs_uchar (PiiVariant_uchar uc u) = uc"
    by (simp add: valueAs_uchar_def PiiVariant_uchar_def ucValue_def set_ucValue_def member_roundtrip)
  have us: "valueAs_ushort (PiiVariant_ushort us u) = us"
    by (simp add: valueAs_ushort_def PiiVariant_ushort_def usValue_def set_usValue_def member_roundtrip)
  have ui: "valueAs_uint (PiiVariant_uint ui u) = ui"
    by (simp add: valueAs_uint_def PiiVariant_uint_def uiValue_def set_uiValue_def member_roundtrip)
  have ul: "valueAs_quint64 (PiiVariant_quint64 ul u) = ul"
    by (simp add: valueAs_quint64_def PiiVariant_quint64_def ulValue_def set_ulValue_def member_roundtrip)
  have f: "valueAs_float (PiiVariant_float f u) = f"
    by (simp add: valueAs_float_def PiiVariant_float_def fValue_def set_fValue_def member_roundtrip)
  have d: "valueAs_double (PiiVariant_double d u) = d"
    by (simp add: valueAs_double_def PiiVariant_double_def dValue_def set_dValue_def member_roundtrip)
  have b: "valueAs_bool (PiiVariant_bool b u) = b"
    by (simp add: valueAs_bool_def PiiVariant_bool_def bValue_roundtrip)
  have p: "valueAs_voidptr (PiiVariant_voidptr p u) = p"
    by (simp add: valueAs_voidptr_def PiiVariant_voidptr_def pValue_def set_pValue_def member_roundtrip)
  have t: "type (PiiVariant_char c u) = CharType" "type (PiiVariant_short sh u) = ShortType"
    "type (PiiVariant_int i u) = IntType" "type (PiiVariant_qint64 l u) = Int64Type"
    "type (PiiVariant_uchar uc u) = UnsignedCharType"
    "type (PiiVariant_ushort us u) = UnsignedShortType"
    "type (PiiVariant_uint ui u) = UnsignedIntType"
    "type (PiiVariant_quint64 ul u) = UnsignedInt64Type"
    "type (PiiVariant_float f u) = FloatType" "type (PiiVariant_double d u) = DoubleType"
    "type (PiiVariant_bool b u) = BoolType" "type (PiiVariant_voidptr p u) = VoidPtrType"
    by (simp_all add: type_def PiiVariant_char_def PiiVariant_short_def PiiVariant_int_def
        PiiVariant_qint64_def PiiVariant_uchar_def PiiVariant_ushort_def PiiVariant_uint_def
        PiiVariant_quint64_def PiiVariant_float_def PiiVariant_double_def PiiVariant_bool_def
        PiiVariant_voidptr_def)
  show ?thesis
    by (simp only: c sh i l uc us ui ul f d b p t simp_thms)
qed

section \<open>Conversion\<close>

text \<open>
  C4, as claimed, fails: a registered converter that has written to the result slot and
  then reports failure makes \<open>convertTo<int>\<close> return what it wrote, not \<open>int()\<close>.
\<close>

theorem convertTo_failed_converter_counterexample:
  "uiType (PiiVariant_bool True 0) \<noteq> typeId T_int \<and>
   converter scribblingMap (uiType (PiiVariant_bool True 0)) (typeId T_int)
     = Some scribblingConverter \<and>
   fst (scribblingConverter (PiiVariant_bool True 0) (T_init T_int)) = False \<and>
   convertTo T_int scribblingMap (PiiVariant_bool True 0) (Some True) = (7, Some False) \<and>
   T_init T_int \<noteq> 7"
  by (simp add: convertTo_def convertTo_ref_def T_int_def PiiVariant_bool_def converter_def
      scribblingMap_def scribblingConverter_def BoolType_def IntType_def)

text \<open>
  C4, amended. If the variant's type is \<open>typeId<T>()\<close>, \<open>convertTo<T>\<close> returns the
  stored value and succeeds. Otherwise, when no converter is registered for the pair it
  fails and returns the value-initialised \<open>T()\<close>; when one is registered it is invoked on
  a slot holding \<open>T()\<close>, and \<open>convertTo<T>\<close> returns the converter's verdict and
  whatever the converter left in the slot. \<open>*ok\<close> receives the verdict when \<open>ok\<close> is not
  null.
\<close>

theorem convertTo_cases:
  "(uiType v = typeId T \<longrightarrow>
      convertTo T cm v ok = (ptrAs T v, if ok \<noteq> None then Some True else None)) \<and>
   (uiType v \<noteq> typeId T \<and> converter cm (uiType v) (typeId T) = None \<longrightarrow>
      convertTo T cm v ok = (T_init T, if ok \<noteq> None then Some False else None)) \<and>
   (uiType v \<noteq> typeId T \<and> converter cm (uiType v) (typeId T) = Some f \<longrightarrow>
      convertTo T cm v ok =
        (snd (f v (T_init T)), if ok \<noteq> None then Some (fst (f v (T_init T))) else None))"
  by (auto simp add: convertTo_def convertTo_ref_def Let_def split: prod.splits)

theorem convertTo_cases_witness:
  "uiType (PiiVariant_int 42 0) = typeId T_int \<and>
   convertTo T_int Map.empty (PiiVariant_int 42 0) (Some False) = (42, Some True) \<and>
   uiType (PiiVariant_bool True 0) \<noteq> typeId T_int \<and>
   converter (Map.empty :: 32 word ConverterMap) (uiType (PiiVariant_bool True 0)) (typeId T_int)
     = None \<and>
   convertTo T_int Map.empty (PiiVariant_bool True 0) (Some True) = (0, Some False) \<and>
   converter scribblingMap (uiType (PiiVariant_bool True 0)) (typeId T_int)
     = Some scribblingConverter \<and>
   convertTo T_int scribblingMap (PiiVariant_bool True 0) None = (7, None)"
proof -
  have a: "uiType (PiiVariant_int 42 0) = typeId T_int"
    by (simp add: PiiVariant_int_def T_int_def)
  have b: "uiType (PiiVariant_bool True 0) \<noteq> typeId T_int"
    by (simp add: PiiVariant_bool_def T_int_def BoolType_def IntType_def)
  have c: "converter (Map.empty :: 32 word ConverterMap) (uiType (PiiVariant_bool True 0))
             (typeId T_int) = None"
    by (simp add: converter_def)
  have d: "converter scribblingMap (uiType (PiiVariant_bool True 0)) (typeId T_int)
             = Some scribblingConverter"
    by (simp add: converter_def scribblingMap_def PiiVariant_bool_def T_int_def)
  have v: "ptrAs T_int (PiiVariant_int 42 0) = 42"
    by (simp add: T_int_def valueAs_int_def PiiVariant_int_def iValue_def set_iValue_def
        member_roundtrip)
  show ?thesis
    using a b c d v
      convertTo_cases [of "PiiVariant_int 42 0" T_int Map.empty "Some False"]
      convertTo_cases [of "PiiVariant_bool True 0" T_int Map.empty "Some True"]
      convertTo_cases [of "PiiVariant_bool True 0" T_int scribblingMap None scribblingConverter]
    by (simp add: T_int_def scribblingConverter_def)
qed

section \<open>Lifecycle calls\<close>

text \<open>
  C10. \<open>PiiSimpleProcessor::wait\<close> returns \<open>true\<close> for every timeout and every state of
  the processor; it is a total function of its arguments, so it does not block.
\<close>

theorem simple_wait_returns_true: "simple_wait time s = True"
  by (simp add: simple_wait_def)

text \<open>
  C5, as claimed, fails: \<open>interrupt()\<close> of the synchronous processor leaves a running
  operation \<open>Stopped\<close>, not \<open>Interrupted\<close>.
\<close>

theorem simple_interrupt_counterexample:
  "state (simple_start (simple_check True (newSimple 3 ([]::nat list))
            :: (nat, nat list) PiiSimpleProcessor)) = Running \<and>
   state (simple_interrupt (simple_start (simple_check True (newSimple 3 ([]::nat list))
            :: (nat, nat list) PiiSimpleProcessor))) = Stopped \<and>
   Stopped \<noteq> Interrupted"
  by (simp add: simple_interrupt_def simple_start_def simple_check_def newSimple_def
      setState_def emit_def)

text \<open>
  C5, amended. \<open>interrupt()\<close> of the synchronous processor disarms the processor and
  moves the operation to \<open>Stopped\<close> from every state. \<open>interrupt()\<close> of the threaded
  processor moves the operation to \<open>Interrupted\<close> from every state but \<open>Stopped\<close>,
  which it keeps, and in every case signals the wait condition.
\<close>

theorem interrupt_effect:
  "state (simple_interrupt s) = Stopped \<and> \<not> bReset (simple_interrupt s) \<and>
   state (threaded_interrupt t) = (if state t = Stopped then Stopped else Interrupted) \<and>
   signalled (threaded_interrupt t)"
  by (simp add: simple_interrupt_def threaded_interrupt_def wakeOne_def setState_def emit_def)

theorem interrupt_effect_witness:
  "state (simple_interrupt (simple_start (simple_check True (newSimple 3 ([]::nat list))
            :: (nat, nat list) PiiSimpleProcessor))) = Stopped \<and>
   state (threaded_interrupt (waitingThreaded 3 ([]::nat list)
            :: (nat, nat list) PiiThreadedProcessor)) = Interrupted \<and>
   signalled (threaded_interrupt (waitingThreaded 3 ([]::nat list)
            :: (nat, nat list) PiiThreadedProcessor)) \<and>
   state (threaded_interrupt (setStopped (waitingThreaded 3 ([]::nat list)
            :: (nat, nat list) PiiThreadedProcessor))) = Stopped"
  using interrupt_effect
    [of "simple_start (simple_check True (newSimple 3 ([]::nat list))
           :: (nat, nat list) PiiSimpleProcessor)"
        "waitingThreaded 3 ([]::nat list) :: (nat, nat list) PiiThreadedProcessor"]
    interrupt_effect
    [of "simple_start (simple_check True (newSimple 3 ([]::nat list))
           :: (nat, nat list) PiiSimpleProcessor)"
        "setStopped (waitingThreaded 3 ([]::nat list) :: (nat, nat list) PiiThreadedProcessor)"]
  by (simp add: waitingThreaded_def setStopped_def setState_def emit_def)

section \<open>The synchronous processor: what a call logs\<close>

lemma logs_refl: "logs P s s" by (simp add: logs_def)

lemma logs_trans: "logs P s s1 \<Longrightarrow> logs P s1 s2 \<Longrightarrow> logs P s s2"
  by (auto simp add: logs_def)

lemma logs_catch: "core P \<Longrightarrow> logs P s (simple_catch code s)"
  by (auto simp add: simple_catch_def logs_def setState_def emit_def Let_def core_def inner_def)

lemma logs_check: "logs P s (simple_check reset s)"
  by (simp add: logs_def simple_check_def Let_def)

lemma logs_start: "inner P \<Longrightarrow> logs P s (simple_start s)"
  by (auto simp add: simple_start_def inner_def logs_def setState_def emit_def)

lemma logs_interrupt: "inner P \<Longrightarrow> logs P s (simple_interrupt s)"
  by (auto simp add: simple_interrupt_def inner_def logs_def setState_def emit_def)

lemma logs_stop: "inner P \<Longrightarrow> P (SetState Stopping) \<Longrightarrow> logs P s (simple_stop s)"
  by (auto simp add: simple_stop_def simple_stop_to_def inner_def logs_def setState_def emit_def
      Let_def)

lemma logs_pause: "inner P \<Longrightarrow> P (SetState Pausing) \<Longrightarrow> logs P s (simple_pause s)"
  by (auto simp add: simple_pause_def simple_stop_to_def inner_def logs_def setState_def emit_def
      Let_def)

lemma logs_resumed: "inner P \<Longrightarrow> logs P s (resumed s)"
  by (simp add: resumed_def logs_def setState_def emit_def inner_def)

lemma logs_accepted: "inner P \<Longrightarrow> logs P s (accepted i x s)"
  by (simp add: accepted_def logs_def emit_def inner_def)

lemma tryToReceive_unfold:
  "simple_tryToReceive n env i x s =
     (if \<not> bReset s then Done (True, s)
      else if canReceive (inputs s i) then
        (if bProcessing s then Done (True, accepted i x (resumed s))
         else simple_dispatch n env (accepted i x (resumed s)))
      else Done (False, resumed s))"
  by (simp add: resumed_def accepted_def Let_def setState_def emit_def)

declare simple_tryToReceive.simps [simp del]

lemma calls_ok_tl: "calls_ok P (a # as) \<Longrightarrow> calls_ok P as"
  by (simp add: calls_ok_def)

text \<open>
  Whatever the callbacks call, \<open>check()\<close> included: every call that returns has extended
  the log by events in \<open>P\<close>, and the dispatch loop returns \<open>true\<close>.
\<close>

lemma simple_logs:
  assumes c: "core P"
  shows "env_ok P env \<Longrightarrow> simple_tryToReceive n env i x s = Done (r, s') \<Longrightarrow>
           logs P s s' \<and> (bReset s \<and> canReceive (inputs s i) \<longrightarrow> r)"
    and "env_ok P env \<Longrightarrow> simple_dispatch n env s = Done (r, s') \<Longrightarrow> r \<and> logs P s s'"
    and "env_ok P env \<Longrightarrow> simple_callHooks n env hs s = Done (co, s') \<Longrightarrow> logs P s s'"
    and "env_ok P env \<Longrightarrow> simple_runActions n env as s = Done s' \<Longrightarrow> calls_ok P as \<Longrightarrow>
           logs P s s'"
proof (induction n env i x s and n env s and n env hs s and n env as s
    arbitrary: r s' and r s' and co s' and s'
    rule: simple_tryToReceive_simple_dispatch_simple_callHooks_simple_runActions.induct)
  case (1 n env sender object s)
  have i: "inner P" using c by (simp add: core_def)
  have 1: "logs P s (resumed s)" by (rule logs_resumed [OF i])
  have 2: "logs P s (accepted sender object (resumed s))"
    by (rule logs_trans [OF 1 logs_accepted [OF i]])
  show ?case
  proof (cases "bReset s \<and> canReceive (inputs s sender) \<and> \<not> bProcessing s")
    case True
    then have d: "simple_dispatch n env (accepted sender object (resumed s)) = Done (r, s')"
      using "1.prems" unfolding tryToReceive_unfold by simp
    have "r \<and> logs P (accepted sender object (resumed s)) s'"
      using True d "1.prems"(1)
      by (intro "1.IH" [where x = "resumed s" and xa = "accepted sender object (resumed s)"])
         (simp_all add: resumed_def accepted_def setState_def emit_def)
    then show ?thesis using 2 logs_trans by blast
  next
    case False
    then show ?thesis
      using "1.prems" 1 2 logs_refl [of P s] unfolding tryToReceive_unfold
      by (auto split: if_splits)
  qed
next
  case (2 env s)
  then show ?case by simp
next
  case (3 n env s)
  note e = "3.prems"(1) and prems = "3.prems"(2)
  from prems obtain fc where fc: "pFlowController s = Some fc"
    by (cases "pFlowController s") auto
  obtain v fc' ins' where pp: "prepareProcess env fc (inputs s) = (v, fc', ins')"
    by (cases "prepareProcess env fc (inputs s)") auto
  let ?s0 = "s\<lparr>pFlowController := Some fc', inputs := ins'\<rparr>"
  show ?case
  proof (cases v)
    case (Inl code)
    have 1: "logs P s (emit (FlowError code) ?s0)"
      using c by (simp add: logs_def emit_def core_def)
    have 2: "logs P s (simple_catch code (emit (FlowError code) ?s0))"
      by (rule logs_trans [OF 1 logs_catch [OF c]])
    show ?thesis using prems fc pp Inl 2 by auto
  next
    case (Inr flow)
    let ?s1 = "emit (Verdict flow) ?s0"
    have 1: "logs P s ?s1" using c by (simp add: logs_def emit_def core_def)
    show ?thesis
    proof (cases "flow = IncompleteState")
      case True
      then show ?thesis using prems fc pp Inr 1 by auto
    next
      case False
      from prems fc pp Inr False obtain co s2 where
        ch: "simple_callHooks n env (SendSyncEvents # hooksFor flow) (?s1\<lparr>bProcessing := True\<rparr>)
               = Done (co, s2)"
        by (cases "simple_callHooks n env (SendSyncEvents # hooksFor flow)
                     (?s1\<lparr>bProcessing := True\<rparr>)")
           (auto simp add: Let_def)
      have "logs P (?s1\<lparr>bProcessing := True\<rparr>) s2"
        using fc pp Inr False ch e
        by (intro "3.IH"(1) [where ?x2.0 = fc and x = v and y = "(fc', ins')" and b = flow
              and xa = fc' and ya = ins' and xb = ?s1 and co = co]) simp_all
      then have 2: "logs P s s2" using 1 by (auto simp add: logs_def)
      show ?thesis
      proof (cases co)
        case None
        let ?s3 = "s2\<lparr>bProcessing := False\<rparr>"
        have 3: "logs P s ?s3" using 2 by (simp add: logs_def)
        show ?thesis
        proof (cases "bReset ?s3")
          case True
          then have d: "simple_dispatch n env ?s3 = Done (r, s')"
            using prems fc pp Inr False ch None by (simp add: Let_def)
          have "r \<and> logs P ?s3 s'"
            using fc pp Inr False ch None True d e
            by (intro "3.IH"(2) [where ?x2.0 = fc and x = v and y = "(fc', ins')" and b = flow
                  and xa = fc' and ya = ins' and xb = ?s1 and ?x3.0 = "(co, s2)" and xc = co
                  and yb = s2 and xd = ?s3]) simp_all
          then show ?thesis using 3 logs_trans by blast
        next
          case F: False
          then show ?thesis using prems fc pp Inr False ch None 3 by (auto simp add: Let_def)
        qed
      next
        case (Some code)
        have "logs P s (simple_catch code s2)"
          by (rule logs_trans [OF 2 logs_catch [OF c]])
        then show ?thesis using prems fc pp Inr False ch Some by (auto simp add: Let_def)
      qed
    qed
  qed
next
  case (4 n env s)
  then show ?case by (simp add: logs_refl)
next
  case (5 n env h hs s)
  note e = "5.prems"(1) and prems = "5.prems"(2)
  have ok: "calls_ok P (fst (hook env h (state s) (inputs s)))"
    using e by (simp add: env_ok_def)
  have ph: "P (Enter h)" "P (Leave h)" using c by (simp_all add: core_def)
  from prems obtain s1 where
    ra: "simple_runActions n env (fst (hook env h (state s) (inputs s))) (emit (Enter h) s) = Done s1"
    by (cases "simple_runActions n env (fst (hook env h (state s) (inputs s))) (emit (Enter h) s)")
       auto
  have "logs P (emit (Enter h) s) s1" by (rule "5.IH"(1) [OF e ra ok])
  then have 1: "logs P s (emit (Leave h) s1)"
    using ph by (auto simp add: logs_def emit_def)
  show ?case
  proof (cases "snd (hook env h (state s) (inputs s))")
    case None
    then have "simple_callHooks n env hs (emit (Leave h) s1) = Done (co, s')"
      using prems ra by simp
    from "5.IH"(2) [OF ra None e this] show ?thesis using 1 logs_trans by blast
  next
    case (Some code)
    then show ?thesis using prems ra 1 by auto
  qed
next
  case (6 n env s)
  then show ?case by (simp add: logs_refl)
next
  case (7 n env sender object as s)
  note e = "7.prems"(1)
  from "7.prems"(2) obtain r1 s1 where
    t: "simple_tryToReceive n env sender object s = Done (r1, s1)"
    by (cases "simple_tryToReceive n env sender object s") auto
  then have ra: "simple_runActions n env as s1 = Done s'" using "7.prems"(2) by simp
  have 1: "logs P s s1" using "7.IH"(1) [OF e t] by simp
  have 2: "logs P s1 s'"
    by (rule "7.IH"(2) [OF t _ e ra calls_ok_tl [OF "7.prems"(3)]]) simp
  show ?case by (rule logs_trans [OF 1 2])
next
  case (8 n env reset as s)
  have ra: "simple_runActions n env as (simple_check reset s) = Done s'"
    using "8.prems"(2) by simp
  have "logs P (simple_check reset s) s'"
    by (rule "8.IH" [OF "8.prems"(1) ra calls_ok_tl [OF "8.prems"(3)]])
  then show ?case using logs_check [of P s reset] logs_trans by blast
next
  case (9 n env as s)
  have i: "inner P" using c by (simp add: core_def)
  have ra: "simple_runActions n env as (simple_start s) = Done s'" using "9.prems"(2) by simp
  have "logs P (simple_start s) s'"
    by (rule "9.IH" [OF "9.prems"(1) ra calls_ok_tl [OF "9.prems"(3)]])
  then show ?case using logs_start [OF i, of s] logs_trans by blast
next
  case (10 n env as s)
  have i: "inner P" using c by (simp add: core_def)
  have p: "P (SetState Stopping)" using "10.prems"(3) by (simp add: calls_ok_def)
  have ra: "simple_runActions n env as (simple_stop s) = Done s'" using "10.prems"(2) by simp
  have "logs P (simple_stop s) s'"
    by (rule "10.IH" [OF "10.prems"(1) ra calls_ok_tl [OF "10.prems"(3)]])
  then show ?case using logs_stop [OF i p, of s] logs_trans by blast
next
  case (11 n env as s)
  have i: "inner P" using c by (simp add: core_def)
  have p: "P (SetState Pausing)" using "11.prems"(3) by (simp add: calls_ok_def)
  have ra: "simple_runActions n env as (simple_pause s) = Done s'" using "11.prems"(2) by simp
  have "logs P (simple_pause s) s'"
    by (rule "11.IH" [OF "11.prems"(1) ra calls_ok_tl [OF "11.prems"(3)]])
  then show ?case using logs_pause [OF i p, of s] logs_trans by blast
next
  case (12 n env as s)
  have i: "inner P" using c by (simp add: core_def)
  have ra: "simple_runActions n env as (simple_interrupt s) = Done s'"
    using "12.prems"(2) by simp
  have "logs P (simple_interrupt s) s'"
    by (rule "12.IH" [OF "12.prems"(1) ra calls_ok_tl [OF "12.prems"(3)]])
  then show ?case using logs_interrupt [OF i, of s] logs_trans by blast
qed

lemma core_any: "core (\<lambda>e. True)" by (simp add: core_def inner_def)

lemma env_ok_any: "env_ok (\<lambda>e. True) env" by (simp add: env_ok_def calls_ok_def)

lemma core_stable: "core stableOnly" by (simp add: core_def inner_def)

lemma core_settled: "core settled" by (simp add: core_def inner_def)

lemma env_ok_settled: "env_ok settled env" by (simp add: env_ok_def calls_ok_def)

lemma env_ok_stable: "quiet env \<Longrightarrow> env_ok stableOnly env"
  by (simp add: env_ok_def calls_ok_def quiet_def)

lemma resumed_fields:
  "bProcessing (resumed s) = bProcessing s" "bReset (resumed s) = bReset s"
  "pFlowController (resumed s) = pFlowController s" "inputs (resumed s) = inputs s"
  "state (resumed s) = (if state s = Stopped \<or> state s = Paused then Running else state s)"
  by (simp_all add: resumed_def setState_def emit_def)

lemma accepted_fields:
  "bProcessing (accepted i x s) = bProcessing s" "bReset (accepted i x s) = bReset s"
  "pFlowController (accepted i x s) = pFlowController s" "state (accepted i x s) = state s"
  "inputs (accepted i x s) = (inputs s)(i := receive x (inputs s i))"
  by (simp_all add: accepted_def setState_def emit_def)

lemma tryToReceive_accepts:
  assumes "bReset s" "canReceive (inputs s sender)"
    and "simple_tryToReceive n env sender object s = Done (r, s')"
  shows "r \<and> (\<exists>evs. trace s' = trace (accepted sender object (resumed s)) @ evs)"
proof (cases "bProcessing s")
  case True
  then show ?thesis using assms unfolding tryToReceive_unfold by auto
next
  case False
  then have d: "simple_dispatch n env (accepted sender object (resumed s)) = Done (r, s')"
    using assms unfolding tryToReceive_unfold by simp
  from simple_logs(2) [OF core_any env_ok_any d]
  show ?thesis by (auto simp add: logs_def)
qed

lemma trace_accepted_resumed:
  "trace (accepted sender object (resumed s)) =
     trace s @ (if state s = Stopped \<or> state s = Paused
                then [SetState Running, Received sender object Running]
                else [Received sender object (state s)])"
  by (simp add: accepted_def resumed_def setState_def emit_def)

section \<open>The synchronous processor: calls behind the guard\<close>

























section \<open>The synchronous processor: when the dispatch loop ends\<close>

lemma dispatch_plain_result:
  "pFlowController s = Some fc \<Longrightarrow> bReset s \<Longrightarrow> \<not> bProcessing s \<Longrightarrow>
   length (queue (inputs s 0)) < n \<Longrightarrow>
   \<exists>s'. simple_dispatch n plainOperation s = Done (True, s') \<and> queue (inputs s' 0) = [] \<and>
      pFlowController s' = Some (fc @ queue (inputs s 0)) \<and>
      (\<forall>i. i \<noteq> 0 \<longrightarrow> inputs s' i = inputs s i) \<and> bReset s' \<and> \<not> bProcessing s'"
proof (induction n arbitrary: s fc)
  case 0
  then show ?case by simp
next
  case (Suc n)
  show ?case
  proof (cases "queue (inputs s 0)")
    case Nil
    then show ?thesis using Suc.prems(1-3)
      by (simp add: plainOperation_def oneInputFlow_def emit_def)
  next
    case (Cons y ys)
    let ?s3 = "(emit (Leave ProcessLocked) (emit (Enter ProcessLocked)
       (emit (Leave SendSyncEvents) (emit (Enter SendSyncEvents)
         ((emit (Verdict ProcessableState)
            (s\<lparr>pFlowController := Some (fc @ [y]),
                inputs := (inputs s)(0 := (inputs s 0)\<lparr>queue := ys, firstObject := Some y\<rparr>)\<rparr>))
          \<lparr>bProcessing := True\<rparr>)))))\<lparr>bProcessing := False\<rparr>"
    have step: "simple_dispatch (Suc n) plainOperation s = simple_dispatch n plainOperation ?s3"
      using Suc.prems(1,2) Cons
      by (simp add: plainOperation_def oneInputFlow_def Let_def emit_def)
    have f: "pFlowController ?s3 = Some (fc @ [y])" by (simp add: emit_def)
    have r: "bReset ?s3" using Suc.prems(2) by (simp add: emit_def)
    have nb: "\<not> bProcessing ?s3" by simp
    have l: "length (queue (inputs ?s3 0)) < n" using Suc.prems(4) Cons by (simp add: emit_def)
    have q: "queue (inputs ?s3 0) = ys" by (simp add: emit_def)
    have o: "\<forall>i. i \<noteq> 0 \<longrightarrow> inputs ?s3 i = inputs s i" by (simp add: emit_def)
    from Suc.IH [OF f r nb l] show ?thesis unfolding step q using Cons o by auto
  qed
qed

lemma tryToReceive_plain_result:
  assumes "bReset t" "canReceive (inputs t sender)" "\<not> bProcessing t"
    "pFlowController t = Some fc" "length (queue (inputs t 0)) + 1 < n"
  shows "\<exists>t'. simple_tryToReceive n plainOperation sender object t = Done (True, t') \<and>
      queue (inputs t' 0) = [] \<and>
      pFlowController t' = Some (fc @ queue (inputs t 0) @ (if sender = 0 then [object] else [])) \<and>
      (sender \<noteq> 0 \<longrightarrow> inputs t' sender = receive object (inputs t sender)) \<and>
      bReset t' \<and> \<not> bProcessing t'"
proof -
  let ?a = "accepted sender object (resumed t)"
  have f: "pFlowController ?a = Some fc" using assms(4)
    by (simp add: accepted_fields resumed_fields)
  have r: "bReset ?a" using assms(1) by (simp add: accepted_fields resumed_fields)
  have nb: "\<not> bProcessing ?a" using assms(3) by (simp add: accepted_fields resumed_fields)
  have l: "length (queue (inputs ?a 0)) < n"
    using assms(5) by (simp add: accepted_fields resumed_fields receive_def)
  have q: "queue (inputs ?a 0) = queue (inputs t 0) @ (if sender = 0 then [object] else [])"
    by (simp add: accepted_fields resumed_fields receive_def)
  have o: "sender \<noteq> 0 \<longrightarrow> inputs ?a sender = receive object (inputs t sender)"
    by (simp add: accepted_fields resumed_fields)
  from dispatch_plain_result [OF f r nb l] show ?thesis
    using assms(1-3) q o unfolding tryToReceive_unfold by auto
qed

lemma tryToReceive_plain_returns:
  assumes "bReset t" "canReceive (inputs t sender)" "\<not> bProcessing t"
    "pFlowController t \<noteq> None" "length (queue (inputs t 0)) + 1 < n"
  shows "\<exists>t'. simple_tryToReceive n plainOperation sender object t = Done (True, t')"
proof -
  from assms(4) obtain fc where "pFlowController t = Some fc" by auto
  from tryToReceive_plain_result [OF assms(1-3) this assms(5)] show ?thesis by blast
qed


lemma quiet_plain: "quiet (plainOperation :: ('a, 'a list) environment)"
  by (simp add: quiet_def plainOperation_def)

lemmas run_defs = simple_tryToReceive.simps armedSimple_def simple_start_def simple_check_def
  newSimple_def setState_def emit_def canReceive_def receive_def Let_def oneInputFlow_def
  simple_catch_def simple_pause_def simple_stop_def simple_stop_to_def simple_interrupt_def


section \<open>The synchronous processor: the recursion guard\<close>





section \<open>The synchronous processor: admission\<close>




section \<open>The synchronous processor: the state in which an object is accepted\<close>

text \<open>
  C9, as claimed, fails in its consequence: an armed operation that \<open>pause()\<close> has put
  into \<open>Pausing\<close> accepts an object while \<open>Pausing\<close>, and stays so.
\<close>

theorem accepted_while_pausing_counterexample:
  "bReset (simple_pause (armedSimple 2 :: (nat, nat list) PiiSimpleProcessor)) \<and>
   state (simple_pause (armedSimple 2 :: (nat, nat list) PiiSimpleProcessor)) = Pausing \<and>
   map_outcome (\<lambda>(r, s). (r, state s, trace s))
     (simple_tryToReceive 2 plainOperation 0 (1::nat) (simple_pause (armedSimple 2)))
   = Done (True, Pausing,
       [SetState Running, SetState Pausing, Received 0 1 Pausing,
        Verdict ProcessableState, Enter SendSyncEvents, Leave SendSyncEvents,
        Enter ProcessLocked, Leave ProcessLocked, Verdict IncompleteState])"
  by (simp add: plainOperation_def run_defs numeral_eq_Suc)

text \<open>
  C9, amended. A call of \<open>tryToReceive\<close> on an armed operation that is \<open>Stopped\<close> or
  \<open>Paused\<close> first sets the state \<open>Running\<close>, and the socket, if it can receive, takes
  the object in state \<open>Running\<close>. On an armed operation in any other state the state is
  not touched before the socket takes the object: the object is accepted in state
  \<open>Running\<close> when the operation was \<open>Running\<close>, and in state \<open>Pausing\<close>, \<open>Stopping\<close>,
  \<open>Starting\<close> or \<open>Interrupted\<close> when it was in that state.
\<close>

theorem tryToReceive_state_when_accepting:
  "(bReset s \<and> (state s = Stopped \<or> state s = Paused) \<and>
    simple_tryToReceive n env sender object s = Done (r, s') \<longrightarrow>
      (\<exists>evs. trace s' = trace s @ SetState Running # evs \<and>
         (canReceive (inputs s sender) \<longrightarrow>
            r \<and> (\<exists>evs'. evs = Received sender object Running # evs')))) \<and>
   (bReset s \<and> state s \<noteq> Stopped \<and> state s \<noteq> Paused \<and> canReceive (inputs s sender) \<and>
    simple_tryToReceive n env sender object s = Done (r, s') \<longrightarrow>
      r \<and> (\<exists>evs. trace s' = trace s @ Received sender object (state s) # evs))"
proof (intro conjI impI)
  assume a: "bReset s \<and> (state s = Stopped \<or> state s = Paused) \<and>
    simple_tryToReceive n env sender object s = Done (r, s')"
  show "\<exists>evs. trace s' = trace s @ SetState Running # evs \<and>
         (canReceive (inputs s sender) \<longrightarrow>
            r \<and> (\<exists>evs'. evs = Received sender object Running # evs'))"
  proof (cases "canReceive (inputs s sender)")
    case True
    with a have "r \<and> (\<exists>evs. trace s' = trace (accepted sender object (resumed s)) @ evs)"
      using tryToReceive_accepts [of s sender n env object r s'] by simp
    then show ?thesis using a True unfolding trace_accepted_resumed by auto
  next
    case False
    then have "s' = resumed s" using a unfolding tryToReceive_unfold by auto
    then show ?thesis using a False by (auto simp add: resumed_def setState_def emit_def)
  qed
next
  assume a: "bReset s \<and> state s \<noteq> Stopped \<and> state s \<noteq> Paused \<and> canReceive (inputs s sender) \<and>
    simple_tryToReceive n env sender object s = Done (r, s')"
  then have "r \<and> (\<exists>evs. trace s' = trace (accepted sender object (resumed s)) @ evs)"
    using tryToReceive_accepts [of s sender n env object r s'] by simp
  then show "r" and "\<exists>evs. trace s' = trace s @ Received sender object (state s) # evs"
    using a unfolding trace_accepted_resumed by auto
qed

theorem tryToReceive_state_when_accepting_witness:
  "bReset (simple_check True (newSimple 2 []) :: (nat, nat list) PiiSimpleProcessor) \<and>
   state (simple_check True (newSimple 2 []) :: (nat, nat list) PiiSimpleProcessor) = Stopped \<and>
   canReceive (inputs (simple_check True (newSimple 2 []) :: (nat, nat list) PiiSimpleProcessor) 0) \<and>
   (\<exists>s' evs. simple_tryToReceive 2 plainOperation 0 (1::nat) (simple_check True (newSimple 2 []))
        = Done (True, s') \<and>
      trace s' = trace (simple_check True (newSimple 2 []) :: (nat, nat list) PiiSimpleProcessor)
                  @ SetState Running # Received 0 1 Running # evs) \<and>
   bReset (simple_pause (armedSimple 2) :: (nat, nat list) PiiSimpleProcessor) \<and>
   state (simple_pause (armedSimple 2) :: (nat, nat list) PiiSimpleProcessor) = Pausing \<and>
   (\<exists>s' evs. simple_tryToReceive 2 plainOperation 0 (1::nat) (simple_pause (armedSimple 2))
        = Done (True, s') \<and>
      trace s' = trace (simple_pause (armedSimple 2) :: (nat, nat list) PiiSimpleProcessor)
                  @ Received 0 1 Pausing # evs)"
proof -
  let ?a = "simple_check True (newSimple 2 []) :: (nat, nat list) PiiSimpleProcessor"
  let ?p = "simple_pause (armedSimple 2) :: (nat, nat list) PiiSimpleProcessor"
  have ha: "bReset ?a \<and> state ?a = Stopped \<and> canReceive (inputs ?a 0) \<and> \<not> bProcessing ?a \<and>
     pFlowController ?a \<noteq> None \<and> length (queue (inputs ?a 0)) + 1 < 2"
    by (simp add: run_defs)
  have hp: "bReset ?p \<and> state ?p = Pausing \<and> canReceive (inputs ?p 0) \<and> \<not> bProcessing ?p \<and>
     pFlowController ?p \<noteq> None \<and> length (queue (inputs ?p 0)) + 1 < 2"
    by (simp add: run_defs)
  from tryToReceive_plain_returns [of ?a 0 2 1] ha
  obtain sa where ra: "simple_tryToReceive 2 plainOperation 0 (1::nat) ?a = Done (True, sa)"
    by blast
  from tryToReceive_plain_returns [of ?p 0 2 1] hp
  obtain sp where rp: "simple_tryToReceive 2 plainOperation 0 (1::nat) ?p = Done (True, sp)"
    by blast
  from tryToReceive_state_when_accepting
    [where s = ?a and n = 2 and env = plainOperation and sender = 0 and object = 1
       and r = True and s' = sa] ha ra
  have ca: "\<exists>evs. trace sa = trace ?a @ SetState Running # Received 0 1 Running # evs"
    by auto
  from tryToReceive_state_when_accepting
    [where s = ?p and n = 2 and env = plainOperation and sender = 0 and object = 1
       and r = True and s' = sp] hp rp
  have cp: "\<exists>evs. trace sp = trace ?p @ Received 0 1 Pausing # evs"
    by auto
  show ?thesis using ha hp ra rp ca cp by blast
qed

section \<open>The synchronous processor: transitional states\<close>

text \<open>
  C6, as claimed, fails: \<open>stop()\<close> and \<open>pause()\<close> of the synchronous processor, on a
  running operation with a flow controller, set \<open>Stopping\<close> and \<open>Pausing\<close>.
\<close>

theorem simple_stop_sets_stopping_counterexample:
  "state (armedSimple 2 :: (nat, nat list) PiiSimpleProcessor) = Running \<and>
   state (simple_stop (armedSimple 2 :: (nat, nat list) PiiSimpleProcessor)) = Stopping \<and>
   state (simple_pause (armedSimple 2 :: (nat, nat list) PiiSimpleProcessor)) = Pausing"
  by (simp add: run_defs)

text \<open>
  C6, amended. \<open>start()\<close> and \<open>interrupt()\<close> of the synchronous processor set only
  \<open>Stopped\<close>, \<open>Running\<close> or \<open>Paused\<close>. \<open>stop()\<close> and \<open>pause()\<close> on a running
  operation set \<open>Stopping\<close> and \<open>Pausing\<close> when a flow controller exists (an input is
  connected), and \<open>Stopped\<close> and \<open>Paused\<close> directly when none exists; on an operation
  that is not running they do nothing. A call of \<open>tryToReceive\<close> sets only \<open>Stopped\<close>,
  \<open>Running\<close> or \<open>Paused\<close> unless a callback calls \<open>stop()\<close> or \<open>pause()\<close> meanwhile,
  and never \<open>Starting\<close> or \<open>Interrupted\<close>.
\<close>

lemma inner_stable: "inner stableOnly" by (simp add: inner_def)

theorem simple_processor_states_set:
  "(\<exists>evs. trace (simple_start s) = trace s @ evs \<and> list_all stableOnly evs) \<and>
   (\<exists>evs. trace (simple_interrupt s) = trace s @ evs \<and> list_all stableOnly evs) \<and>
   (state s = Running \<and> pFlowController s \<noteq> None \<longrightarrow>
      state (simple_stop s) = Stopping \<and> state (simple_pause s) = Pausing) \<and>
   (state s = Running \<and> pFlowController s = None \<longrightarrow>
      state (simple_stop s) = Stopped \<and> state (simple_pause s) = Paused \<and>
      (\<exists>evs. trace (simple_stop s) = trace s @ evs \<and> list_all stableOnly evs) \<and>
      (\<exists>evs. trace (simple_pause s) = trace s @ evs \<and> list_all stableOnly evs)) \<and>
   (state s \<noteq> Running \<longrightarrow> simple_stop s = s \<and> simple_pause s = s) \<and>
   (quiet env \<and> simple_tryToReceive n env sender object s = Done (r, s') \<longrightarrow>
      (\<exists>evs. trace s' = trace s @ evs \<and> list_all stableOnly evs)) \<and>
   (simple_tryToReceive n env sender object s = Done (r, s') \<longrightarrow>
      (\<exists>evs. trace s' = trace s @ evs \<and> list_all settled evs))"
proof (intro conjI impI)
  show "\<exists>evs. trace (simple_start s) = trace s @ evs \<and> list_all stableOnly evs"
    using logs_start [OF inner_stable, of s] by (simp add: logs_def)
  show "\<exists>evs. trace (simple_interrupt s) = trace s @ evs \<and> list_all stableOnly evs"
    using logs_interrupt [OF inner_stable, of s] by (simp add: logs_def)
next
  assume "state s = Running \<and> pFlowController s \<noteq> None"
  then show "state (simple_stop s) = Stopping" "state (simple_pause s) = Pausing"
    by (auto simp add: simple_stop_def simple_pause_def simple_stop_to_def setState_def emit_def)
next
  assume a: "state s = Running \<and> pFlowController s = None"
  then show "state (simple_stop s) = Stopped" "state (simple_pause s) = Paused"
    "\<exists>evs. trace (simple_stop s) = trace s @ evs \<and> list_all stableOnly evs"
    "\<exists>evs. trace (simple_pause s) = trace s @ evs \<and> list_all stableOnly evs"
    by (simp_all add: simple_stop_def simple_pause_def simple_stop_to_def setState_def emit_def)
next
  assume "state s \<noteq> Running"
  then show "simple_stop s = s" "simple_pause s = s"
    by (simp_all add: simple_stop_def simple_pause_def simple_stop_to_def)
next
  assume "quiet env \<and> simple_tryToReceive n env sender object s = Done (r, s')"
  then show "\<exists>evs. trace s' = trace s @ evs \<and> list_all stableOnly evs"
    using simple_logs(1) [OF core_stable env_ok_stable, where env = env and n = n and i = sender and x = object and s = s and r = r and s' = s']
    by (simp add: logs_def)
next
  assume "simple_tryToReceive n env sender object s = Done (r, s')"
  then show "\<exists>evs. trace s' = trace s @ evs \<and> list_all settled evs"
    using simple_logs(1) [OF core_settled env_ok_settled, where env = env and n = n and i = sender and x = object and s = s and r = r and s' = s']
    by (simp add: logs_def)
qed

theorem simple_processor_states_set_witness:
  "state (armedSimple 2 :: (nat, nat list) PiiSimpleProcessor) = Running \<and>
   pFlowController (armedSimple 2 :: (nat, nat list) PiiSimpleProcessor) \<noteq> None \<and>
   state (simple_stop (armedSimple 2 :: (nat, nat list) PiiSimpleProcessor)) = Stopping \<and>
   state (simple_pause (armedSimple 2 :: (nat, nat list) PiiSimpleProcessor)) = Pausing \<and>
   state ((armedSimple 2 :: (nat, nat list) PiiSimpleProcessor)\<lparr>pFlowController := None\<rparr>) = Running \<and>
   state (simple_stop ((armedSimple 2 :: (nat, nat list) PiiSimpleProcessor)\<lparr>pFlowController := None\<rparr>))
     = Stopped \<and>
   state (simple_pause ((armedSimple 2 :: (nat, nat list) PiiSimpleProcessor)\<lparr>pFlowController := None\<rparr>))
     = Paused \<and>
   state (newSimple 2 [] :: (nat, nat list) PiiSimpleProcessor) \<noteq> Running \<and>
   simple_stop (newSimple 2 [] :: (nat, nat list) PiiSimpleProcessor) = newSimple 2 [] \<and>
   quiet (plainOperation :: (nat, nat list) environment) \<and>
   (\<exists>s' evs. simple_tryToReceive 2 plainOperation 0 (1::nat) (armedSimple 2) = Done (True, s') \<and>
      trace s' = trace (armedSimple 2 :: (nat, nat list) PiiSimpleProcessor) @ evs \<and>
      list_all stableOnly evs \<and> list_all settled evs)"
proof -
  let ?armed = "armedSimple 2 :: (nat, nat list) PiiSimpleProcessor"
  let ?src = "?armed\<lparr>pFlowController := None\<rparr>"
  let ?new = "newSimple 2 [] :: (nat, nat list) PiiSimpleProcessor"
  have h1: "state ?armed = Running \<and> pFlowController ?armed \<noteq> None" by (simp add: run_defs)
  have h2: "state ?src = Running \<and> pFlowController ?src = None" by (simp add: run_defs)
  have h3: "state ?new \<noteq> Running" by (simp add: run_defs)
  have h5: "bReset ?armed \<and> canReceive (inputs ?armed 0) \<and> \<not> bProcessing ?armed \<and>
     pFlowController ?armed \<noteq> None \<and> length (queue (inputs ?armed 0)) + 1 < 2"
    by (simp add: run_defs)
  from tryToReceive_plain_returns [of ?armed 0 2 1] h5
  obtain s1 where r: "simple_tryToReceive 2 plainOperation 0 (1::nat) ?armed = Done (True, s1)"
    by blast
  note t1 = simple_processor_states_set
    [where s = ?armed and n = 2 and env = plainOperation and sender = 0 and object = 1
       and r = True and s' = s1]
  note t2 = simple_processor_states_set
    [where s = ?src and n = 2 and env = plainOperation and sender = 0 and object = 1
       and r = True and s' = s1]
  note t3 = simple_processor_states_set
    [where s = ?new and n = 2 and env = plainOperation and sender = 0 and object = 1
       and r = True and s' = s1]
  have c1: "state (simple_stop ?armed) = Stopping \<and> state (simple_pause ?armed) = Pausing"
    using t1 h1 by blast
  have c2: "state (simple_stop ?src) = Stopped \<and> state (simple_pause ?src) = Paused"
    using t2 h2 by blast
  have c3: "simple_stop ?new = ?new" using t3 h3 by blast
  have c4: "\<exists>evs. trace s1 = trace ?armed @ evs \<and> list_all stableOnly evs"
    using t1 r quiet_plain by blast
  have c5: "\<exists>evs. trace s1 = trace ?armed @ evs \<and> list_all settled evs"
    using t1 r by blast
  from c4 c5 have c6: "\<exists>evs. trace s1 = trace ?armed @ evs \<and> list_all stableOnly evs \<and> list_all settled evs"
    by auto
  show ?thesis using h1 h2 h3 c1 c2 c3 c6 r quiet_plain by blast
qed

section \<open>The threaded processor: interrupting a waiting thread\<close>

lemma interrupted_persists:
  "state s = Interrupted \<Longrightarrow> state (threaded_runActions as s) = Interrupted"
proof (induction as arbitrary: s)
  case Nil
  then show ?case by simp
next
  case (Cons a as)
  then show ?case
    by (cases a)
       (simp_all add: threaded_tryToReceive_def threaded_check_def threaded_start_def
          threaded_stop_def threaded_pause_def threaded_interrupt_def wakeOne_def wakeAll_def
          setState_def emit_def)
qed

text \<open>
  C7, as claimed, fails in its last part: after the interrupted thread has terminated the
  operation is \<open>Stopped\<close>, not \<open>Interrupted\<close>. The thread waits for input with nothing
  queued; after \<open>interrupt()\<close> two moves take it out of \<open>run()\<close> in state
  \<open>Interrupted\<close>, and the third, the \<open>finished()\<close> signal reaching \<open>setStopped()\<close>,
  sets \<open>Stopped\<close>.
\<close>

theorem interrupted_thread_ends_stopped_counterexample:
  "blocked (waitingThreaded 3 ([]::nat list) :: (nat, nat list) PiiThreadedProcessor) \<and>
   queue (inputs (waitingThreaded 3 ([]::nat list) :: (nat, nat list) PiiThreadedProcessor) 0) = [] \<and>
   map_outcome (\<lambda>s. (pc s, state s, trace s))
     (threaded_steps 2 1 plainOperation (threaded_interrupt (waitingThreaded 3 ([]::nat list))))
     = Done (Finished, Interrupted, [SetState Interrupted :: nat event]) \<and>
   map_outcome (\<lambda>s. (pc s, state s, trace s))
     (threaded_steps 3 1 plainOperation (threaded_interrupt (waitingThreaded 3 ([]::nat list))))
     = Done (NoThread, Stopped, [SetState Interrupted, SetState Stopped :: nat event]) \<and>
   Stopped \<noteq> Interrupted"
  by (simp add: waitingThreaded_def blocked_def threaded_interrupt_def threaded_step_def
      wakeOne_def setStopped_def setState_def emit_def numeral_eq_Suc)

text \<open>
  C7, amended. A thread blocked in the wait for input of an operation that is not
  \<open>Stopped\<close> does not move; \<open>interrupt()\<close> unblocks it, and it then leaves \<open>run()\<close>
  without asking the flow controller and without invoking \<open>process()\<close> (nothing but the
  state changes is logged, the sockets and the flow controller are untouched), the
  operation being \<open>Interrupted\<close> at that point; the delivery of \<open>finished()\<close> to
  \<open>setStopped()\<close> then sets the state \<open>Stopped\<close>, which is the state after the thread
  has terminated.
\<close>

theorem interrupt_ends_blocked_thread:
  "pc s = InInputWait \<and> \<not> signalled s \<and> state s \<noteq> Stopped \<longrightarrow>
     blocked s \<and> threaded_step n env s = Done s \<and> \<not> blocked (threaded_interrupt s) \<and>
     (\<exists>s2. threaded_steps 2 n env (threaded_interrupt s) = Done s2 \<and>
        pc s2 = Finished \<and> state s2 = Interrupted \<and>
        trace s2 = trace s @ [SetState Interrupted] \<and> inputs s2 = inputs s \<and>
        pFlowController s2 = pFlowController s) \<and>
     (\<exists>s3. threaded_steps 3 n env (threaded_interrupt s) = Done s3 \<and>
        pc s3 = NoThread \<and> state s3 = Stopped \<and>
        trace s3 = trace s @ [SetState Interrupted, SetState Stopped] \<and>
        inputs s3 = inputs s \<and> pFlowController s3 = pFlowController s)"
  by (simp add: blocked_def threaded_interrupt_def threaded_step_def
      wakeOne_def setStopped_def setState_def emit_def numeral_eq_Suc)

theorem interrupt_ends_blocked_thread_witness:
  "pc (waitingThreaded 3 ([]::nat list) :: (nat, nat list) PiiThreadedProcessor) = InInputWait \<and>
   \<not> signalled (waitingThreaded 3 ([]::nat list) :: (nat, nat list) PiiThreadedProcessor) \<and>
   state (waitingThreaded 3 ([]::nat list) :: (nat, nat list) PiiThreadedProcessor) \<noteq> Stopped \<and>
   blocked (waitingThreaded 3 ([]::nat list) :: (nat, nat list) PiiThreadedProcessor) \<and>
   (\<exists>s2. threaded_steps 2 1 plainOperation (threaded_interrupt (waitingThreaded 3 ([]::nat list)))
            = Done s2 \<and>
      pc s2 = Finished \<and> state s2 = Interrupted \<and> trace s2 = [SetState Interrupted :: nat event]) \<and>
   (\<exists>s3. threaded_steps 3 1 plainOperation (threaded_interrupt (waitingThreaded 3 ([]::nat list)))
            = Done s3 \<and>
      pc s3 = NoThread \<and> state s3 = Stopped \<and>
      trace s3 = [SetState Interrupted, SetState Stopped :: nat event])"
proof -
  let ?w = "waitingThreaded 3 ([]::nat list) :: (nat, nat list) PiiThreadedProcessor"
  have h: "pc ?w = InInputWait \<and> \<not> signalled ?w \<and> state ?w \<noteq> Stopped"
    by (simp add: waitingThreaded_def)
  have t: "trace ?w = []" by (simp add: waitingThreaded_def)
  from interrupt_ends_blocked_thread [of ?w 1 plainOperation] h
  have c: "blocked ?w \<and>
     (\<exists>s2. threaded_steps 2 1 plainOperation (threaded_interrupt ?w) = Done s2 \<and>
        pc s2 = Finished \<and> state s2 = Interrupted \<and>
        trace s2 = trace ?w @ [SetState Interrupted]) \<and>
     (\<exists>s3. threaded_steps 3 1 plainOperation (threaded_interrupt ?w) = Done s3 \<and>
        pc s3 = NoThread \<and> state s3 = Stopped \<and>
        trace s3 = trace ?w @ [SetState Interrupted, SetState Stopped])"
    by blast
  show ?thesis using h c unfolding t by simp
qed

end
